theory Spec2Isabelle
  imports Complex_Main "HOL-Library.Log_Nat"
begin

section \<open>Values and responses of the summarizer service\<close>

text \<open>
  The service of \<^verbatim>\<open>src/server.js\<close> is one Express route, \<^verbatim>\<open>POST /summarize\<close>, behind a
  rate limiter and a validation chain. Strings are modelled as \<^typ>\<open>string\<close>, one
  \<^typ>\<open>char\<close> per UTF-16 code unit in the range U+0000 to U+00FF; text with code units
  above U+00FF is outside the model.

  A field of the parsed JSON body is absent (\<open>None\<close>, JavaScript's \<^verbatim>\<open>undefined\<close>) or holds
  a scalar JSON value. Array and object values are not modelled: what the validation
  library does with them is decided inside that library, not in \<^verbatim>\<open>src/\<close>.
\<close>

datatype jsval = JNull | JBool bool | JNum rat | JStr string

record body =
  body_text :: "jsval option"
  body_tone :: "jsval option"
  body_length :: "jsval option"

text \<open>One entry of \<^verbatim>\<open>errors.array()\<close>: the field's path and the message of the failed check.\<close>

type_synonym verror = "string \<times> string"

text \<open>
  A JavaScript number is an IEEE 754 double. \<open>Fin m e\<close> is the finite number
  \<open>m * 2 ^ e\<close>; the word counts are integers, which subtract exactly, so the only
  rounding is in the division and in the multiplication. Negative zero does not arise
  from a difference of two counts and is not modelled.
\<close>

datatype jsnum = Fin int int | PosInf | NegInf | NaN

record settings =
  tone :: "jsval option"
  length_setting :: "jsval option"

record summary_data =
  originalText :: string
  summary :: string
  originalWordCount :: nat
  summaryWordCount :: nat
  compressionRatio :: "string option"
  settings :: settings
  model :: string

text \<open>
  A response is the HTTP status with its JSON body. \<open>ErrorBody\<close> carries the fields
  \<^verbatim>\<open>error\<close>, \<^verbatim>\<open>message\<close> and \<^verbatim>\<open>details\<close> (\<open>None\<close> where the code leaves it out or sets it
  to \<^verbatim>\<open>undefined\<close>).
\<close>

datatype resp_body =
    SummaryBody summary_data string
  | ValidationBody string "verror list"
  | ErrorBody string string "string option"
  | LimitBody string jsnum

type_synonym response = "nat \<times> resp_body"

text \<open>
  What the \<^verbatim>\<open>catch\<close> block inspects of a thrown error: \<^verbatim>\<open>error.status\<close> (absent on an
  error that is not an API error) and \<^verbatim>\<open>error.message\<close>.
\<close>

record js_error =
  err_status :: "int option"
  err_message :: "string option"

section \<open>Mapping provider errors to responses\<close>

primrec starts_with :: "string \<Rightarrow> string \<Rightarrow> bool" where
  "starts_with s [] = True"
| "starts_with s (p # ps) = (case s of [] \<Rightarrow> False | c # cs \<Rightarrow> c = p \<and> starts_with cs ps)"

text \<open>\<^verbatim>\<open>String.prototype.includes\<close>: the pattern occurs at some position of the string.\<close>

primrec includes_str :: "string \<Rightarrow> string \<Rightarrow> bool" where
  "includes_str [] p = (p = [])"
| "includes_str (c # cs) p = (starts_with (c # cs) p \<or> includes_str cs p)"

text \<open>
  The \<^verbatim>\<open>catch\<close> block of the route (lines 165 to 196), its tests in the order of the
  source. \<open>node_env\<close> is \<^verbatim>\<open>process.env.NODE_ENV\<close>. \<^verbatim>\<open>error.message && ...\<close> is false for an
  absent and for an empty message.
\<close>

definition handle_error :: "string option \<Rightarrow> js_error \<Rightarrow> response" where
  "handle_error node_env e =
     (if err_status e = Some 429 then
        (503, ErrorBody ''Service temporarily unavailable due to rate limits''
                ''Please try again later'' None)
      else if err_status e = Some 401 then
        (500, ErrorBody ''Configuration error'' ''API key is invalid or missing'' None)
      else if (case err_message e of None \<Rightarrow> False
               | Some m \<Rightarrow> m \<noteq> [] \<and> includes_str m ''context_length'') then
        (400, ErrorBody ''Text too long''
                ''The provided text exceeds the maximum allowed length'' None)
      else
        (500, ErrorBody ''Internal server error''
                ''Failed to generate summary. Please try again.''
                (if node_env = Some ''development'' then err_message e else None)))"

section \<open>Text metrics\<close>

text \<open>
  The white space of the regular expression class \<^verbatim>\<open>\s\<close> and of \<^verbatim>\<open>trim\<close> below U+0100:
  tab, line feed, vertical tab, form feed, carriage return, space and no-break space.
\<close>

definition is_space :: "char \<Rightarrow> bool" where
  "is_space c = (c \<in> set [CHR 0x09, CHR 0x0A, CHR 0x0B, CHR 0x0C, CHR 0x0D, CHR 0x20, CHR 0xA0])"

definition trim :: "string \<Rightarrow> string" where
  "trim s = rev (dropWhile is_space (rev (dropWhile is_space s)))"

text \<open>
  \<^verbatim>\<open>s.split(/\s+/)\<close>: the pieces of \<open>s\<close> between the maximal runs of white space. The
  first argument is the piece read so far. A run at the start or at the end of the string
  leaves an empty piece there, and the empty string gives one empty piece.
\<close>

function split_from :: "string \<Rightarrow> string \<Rightarrow> string list" where
  "split_from cur [] = [cur]"
| "split_from cur (c # cs) =
     (if is_space c then cur # split_from [] (dropWhile is_space cs)
      else split_from (cur @ [c]) cs)"
  by pat_completeness auto
termination
  by (relation "measure (\<lambda>(cur, s). length s)") (auto simp: length_dropWhile_le less_Suc_eq_le)

definition split_ws :: "string \<Rightarrow> string list" where
  "split_ws s = split_from [] s"

definition countWords :: "string \<Rightarrow> nat" where
  "countWords text = length (filter (\<lambda>word. length word > 0) (split_ws (trim text)))"

section \<open>Prompt builder\<close>

text \<open>
  Both functions compare with \<^verbatim>\<open>===\<close> in a \<^verbatim>\<open>switch\<close>, so only the string itself matches;
  \<open>None\<close> is \<^verbatim>\<open>undefined\<close>.
\<close>

definition getSummaryLength :: "jsval option \<Rightarrow> string" where
  "getSummaryLength l =
     (if l = Some (JStr ''short'') then ''1-2 sentences''
      else if l = Some (JStr ''long'') then ''4-6 sentences''
      else ''2-4 sentences'')"

definition getToneInstruction :: "jsval option \<Rightarrow> string" where
  "getToneInstruction t =
     (if t = Some (JStr ''professional'') then ''Use a professional and formal tone.''
      else if t = Some (JStr ''casual'') then ''Use a casual and conversational tone.''
      else if t = Some (JStr ''academic'') then ''Use an academic and scholarly tone.''
      else if t = Some (JStr ''creative'') then ''Use a creative and engaging tone.''
      else [])"

text \<open>The template literal of lines 123 to 125; its two line breaks are line feeds.\<close>

definition prompt :: "string \<Rightarrow> jsval option \<Rightarrow> jsval option \<Rightarrow> string" where
  "prompt text t l =
     ''Summarize this content in '' @ getSummaryLength l @ ''. '' @ getToneInstruction t
       @ '' Focus on the key points and main ideas:'' @ [CHR 0x0A, CHR 0x0A] @ text"

text \<open>
  The prompt as the specification words it: the instruction
  "Summarize this content in <N> sentences. <tone clause> Focus on key points and main
  ideas:", then the source text. The mapped phrase ("1-2 sentences", ...) is read as
  filling "<N> sentences".
\<close>

definition spec_prompt :: "string \<Rightarrow> jsval option \<Rightarrow> jsval option \<Rightarrow> string" where
  "spec_prompt text t l =
     ''Summarize this content in '' @ getSummaryLength l @ ''. '' @ getToneInstruction t
       @ '' Focus on key points and main ideas:'' @ text"

section \<open>Validator\<close>

text \<open>
  The checks of the chain \<^verbatim>\<open>validateSummarizeRequest\<close>. \<^verbatim>\<open>isString\<close> tests the value itself;
  \<^verbatim>\<open>isLength\<close> and \<^verbatim>\<open>isIn\<close> test the value converted to a string. The conversion of an
  absent value or \<^verbatim>\<open>null\<close> is the empty string, that of a boolean or a number is its
  usual rendering, shorter than 200 characters and never one of the enumerated words;
  the checks are written by cases accordingly.
\<close>

definition isString :: "jsval option \<Rightarrow> bool" where
  "isString v = (case v of Some (JStr s) \<Rightarrow> True | _ \<Rightarrow> False)"

definition isLength_min :: "nat \<Rightarrow> jsval option \<Rightarrow> bool" where
  "isLength_min n v = (case v of Some (JStr s) \<Rightarrow> n \<le> length s | _ \<Rightarrow> False)"

definition isLength_max :: "nat \<Rightarrow> jsval option \<Rightarrow> bool" where
  "isLength_max n v = (case v of Some (JStr s) \<Rightarrow> length s \<le> n | _ \<Rightarrow> True)"

definition isIn :: "string list \<Rightarrow> jsval \<Rightarrow> bool" where
  "isIn vs v = (case v of JStr s \<Rightarrow> s \<in> set vs | _ \<Rightarrow> False)"

text \<open>
  Every check of a chain runs (the chains do not bail out), each failure adds its message,
  in the order of the chains. A field marked \<^verbatim>\<open>optional()\<close> is skipped when it is absent.
\<close>

definition validateSummarizeRequest :: "body \<Rightarrow> verror list" where
  "validateSummarizeRequest b =
     (if isString (body_text b) then [] else [(''text'', ''Text must be a string'')])
     @ (if isLength_min 200 (body_text b) then []
        else [(''text'', ''Text must be at least 200 characters long'')])
     @ (if isLength_max 10000 (body_text b) then []
        else [(''text'', ''Text must not exceed 10,000 characters'')])
     @ (case body_tone b of None \<Rightarrow> []
        | Some v \<Rightarrow>
            if isIn [''professional'', ''casual'', ''academic'', ''creative''] v then []
            else [(''tone'', ''Tone must be one of: professional, casual, academic, creative'')])
     @ (case body_length b of None \<Rightarrow> []
        | Some v \<Rightarrow>
            if isIn [''short'', ''medium'', ''long''] v then []
            else [(''length'', ''Length must be one of: short, medium, long'')])"

section \<open>Numbers\<close>

text \<open>The integer nearest to \<open>a / b\<close> for \<open>b > 0\<close>, a tie going to the even one.\<close>

definition round_half_even :: "int \<Rightarrow> int \<Rightarrow> int" where
  "round_half_even a b =
     (let q = a div b; r = a mod b
      in if 2 * r < b then q else if b < 2 * r then q + 1 else if even q then q else q + 1)"

text \<open>
  The double nearest to \<open>a / b\<close> for \<open>b > 0\<close>: \<open>p\<close> is the binary exponent of the
  quotient, the significand has 53 bits (fewer below the normal range, whose least
  exponent is \<open>- 1074\<close>), and a result of \<open>2 ^ 1024\<close> or more is an infinity.
\<close>

definition round_ratio :: "int \<Rightarrow> int \<Rightarrow> jsnum" where
  "round_ratio a b =
     (if a = 0 then Fin 0 0
      else
        let k = bitlen \<bar>a\<bar> - bitlen b;
            p = (if b * 2 ^ nat k \<le> \<bar>a\<bar> * 2 ^ nat (- k) then k else k - 1);
            e = max (p - 52) (- 1074);
            m = round_half_even (a * 2 ^ nat (- e)) (b * 2 ^ nat e)
        in if 0 \<le> e \<and> 2 ^ 1024 \<le> \<bar>m\<bar> * 2 ^ nat e
           then (if 0 < a then PosInf else NegInf)
           else Fin m e)"

text \<open>The quotient \<^verbatim>\<open>a / b\<close> of an integer by a count; dividing by zero does not throw.\<close>

definition js_div :: "int \<Rightarrow> nat \<Rightarrow> jsnum" where
  "js_div a b =
     (if b = 0 then (if a = 0 then NaN else if a < 0 then NegInf else PosInf)
      else round_ratio a (int b))"

text \<open>The product \<^verbatim>\<open>x * k\<close> of a number by an integer.\<close>

fun js_mul :: "jsnum \<Rightarrow> int \<Rightarrow> jsnum" where
  "js_mul (Fin m e) k = round_ratio (m * k * 2 ^ nat e) (2 ^ nat (- e))"
| "js_mul PosInf k = (if k = 0 then NaN else if 0 < k then PosInf else NegInf)"
| "js_mul NegInf k = (if k = 0 then NaN else if 0 < k then NegInf else PosInf)"
| "js_mul NaN k = NaN"

text \<open>\<^verbatim>\<open>Math.ceil\<close>.\<close>

fun js_ceil :: "jsnum \<Rightarrow> jsnum" where
  "js_ceil (Fin m e) = Fin (if 0 \<le> e then m * 2 ^ nat e else - ((- m) div 2 ^ nat (- e))) 0"
| "js_ceil x = x"

text \<open>The decimal digits of a natural number.\<close>

fun digits :: "nat \<Rightarrow> string" where
  "digits n =
     (if n < 10 then [''0123456789'' ! n]
      else digits (n div 10) @ [''0123456789'' ! (n mod 10)])"

declare digits.simps [simp del]

text \<open>
  \<^verbatim>\<open>x.toFixed(1)\<close>: a number that is not finite gives its name; otherwise \<open>n\<close> is the integer
  nearest to ten times the magnitude, the larger one on a tie, written with a point
  before its last digit and the sign in front. From \<open>10 ^ 21\<close> on the method switches to
  the exponential notation, which is not modelled: the result is \<open>None\<close> there.
\<close>

fun toFixed1 :: "jsnum \<Rightarrow> string option" where
  "toFixed1 NaN = Some ''NaN''"
| "toFixed1 PosInf = Some ''Infinity''"
| "toFixed1 NegInf = Some ''-Infinity''"
| "toFixed1 (Fin m e) =
     (if 10 ^ 21 * 2 ^ nat (- e) \<le> \<bar>m\<bar> * 2 ^ nat e then None
      else
        let n = nat ((2 * 10 * \<bar>m\<bar> * 2 ^ nat e + 2 ^ nat (- e)) div (2 * 2 ^ nat (- e)));
            d = digits n;
            d = (if length d \<le> 1 then ''0'' @ d else d)
        in Some ((if m < 0 then ''-'' else []) @ butlast d @ ''.'' @ [last d]))"

text \<open>The expression of line 155, from the two word counts.\<close>

definition compression_ratio :: "nat \<Rightarrow> nat \<Rightarrow> string option" where
  "compression_ratio original summ =
     map_option (\<lambda>r. r @ ''%'')
       (toFixed1 (js_mul (js_div (int original - int summ) original) 100))"

text \<open>
  The ratio as the specification words it: the exact quotient, and a string that shows
  a number of tenths with one decimal place.
\<close>

definition exact_ratio :: "nat \<Rightarrow> nat \<Rightarrow> real" where
  "exact_ratio original summ = (real original - real summ) / real original * 100"

definition one_decimal :: "bool \<Rightarrow> nat \<Rightarrow> string" where
  "one_decimal neg n = (if neg then ''-'' else []) @ digits (n div 10) @ ''.'' @ digits (n mod 10)"

definition tenths_value :: "bool \<Rightarrow> nat \<Rightarrow> real" where
  "tenths_value neg n = (if neg then - real n / 10 else real n / 10)"

section \<open>The summarize route\<close>

text \<open>
  The provider call either throws an error or returns a completion, whose content may be
  \<^verbatim>\<open>null\<close> (\<open>None\<close>). Reading \<^verbatim>\<open>trim\<close> of a value that is not a string throws a
  \<^verbatim>\<open>TypeError\<close>, which has no \<^verbatim>\<open>status\<close>; the messages are those of Node.js.
\<close>

datatype gateway_result = Completion "string option" | Failure js_error

definition type_error :: "jsval option \<Rightarrow> js_error" where
  "type_error v =
     \<lparr>err_status = None,
      err_message = Some (case v of
          None \<Rightarrow> ''Cannot read properties of undefined (reading '' @ [CHR 0x27] @ ''trim''
                    @ [CHR 0x27] @ '')''
        | Some JNull \<Rightarrow> ''Cannot read properties of null (reading '' @ [CHR 0x27] @ ''trim''
                          @ [CHR 0x27] @ '')''
        | Some _ \<Rightarrow> ''text.trim is not a function'')\<rparr>"

text \<open>A destructuring default: it applies when the property is absent.\<close>

definition with_default :: "jsval option \<Rightarrow> string \<Rightarrow> jsval option" where
  "with_default v d = (case v of None \<Rightarrow> Some (JStr d) | Some x \<Rightarrow> Some x)"

text \<open>
  The handler of \<^verbatim>\<open>POST /summarize\<close> (lines 103 to 197). \<open>gateway\<close> is the provider, from
  the prompt to its result, and \<open>now\<close> the timestamp. The result is the response with
  the list of prompts that were sent to the provider. A text that is not a string cannot
  pass the validation; the last case is what \<^verbatim>\<open>countWords\<close> would do with it.
\<close>

definition summarize ::
  "string option \<Rightarrow> string \<Rightarrow> (string \<Rightarrow> gateway_result) \<Rightarrow> body \<Rightarrow> response \<times> string list" where
  "summarize node_env now gateway b =
     (let errors = validateSummarizeRequest b
      in if errors \<noteq> [] then ((400, ValidationBody ''Validation failed'' errors), [])
         else
           let t = with_default (body_tone b) ''professional'';
               l = with_default (body_length b) ''medium''
           in case body_text b of
                Some (JStr text) \<Rightarrow>
                  let original = countWords text;
                      p = prompt text t l
                  in (case gateway p of
                        Failure e \<Rightarrow> (handle_error node_env e, [p])
                      | Completion None \<Rightarrow> (handle_error node_env (type_error (Some JNull)), [p])
                      | Completion (Some content) \<Rightarrow>
                          let summ = trim content;
                              summ_count = countWords summ
                          in ((200, SummaryBody
                                 \<lparr>originalText = text,
                                  summary = summ,
                                  originalWordCount = original,
                                  summaryWordCount = summ_count,
                                  compressionRatio = compression_ratio original summ_count,
                                  settings = \<lparr>tone = t, length_setting = l\<rparr>,
                                  model = ''llama-3.3-70b-versatile''\<rparr> now), [p]))
              | v \<Rightarrow> (handle_error node_env (type_error v), []))"

section \<open>Rate limiter\<close>

text \<open>
  The options given to the rate limiter (lines 25 to 34). An environment variable is
  read through \<^verbatim>\<open>parseInt\<close>, here its result (\<open>None\<close> for \<^verbatim>\<open>NaN\<close>); \<^verbatim>\<open>||\<close> takes the default
  for \<^verbatim>\<open>NaN\<close> and for zero.
\<close>

record limiter_env =
  RATE_LIMIT_WINDOW_MS :: "int option"
  RATE_LIMIT_MAX_REQUESTS :: "int option"

definition or_default :: "int option \<Rightarrow> int \<Rightarrow> int" where
  "or_default v d = (case v of None \<Rightarrow> d | Some n \<Rightarrow> if n = 0 then d else n)"

definition windowMs :: "limiter_env \<Rightarrow> int" where
  "windowMs env = or_default (RATE_LIMIT_WINDOW_MS env) (15 * 60 * 1000)"

definition max_requests :: "limiter_env \<Rightarrow> int" where
  "max_requests env = or_default (RATE_LIMIT_MAX_REQUESTS env) 100"

definition retryAfter :: "limiter_env \<Rightarrow> jsnum" where
  "retryAfter env = js_ceil (js_div (or_default (RATE_LIMIT_WINDOW_MS env) (15 * 60 * 1000)) 1000)"

definition limiter_message :: "limiter_env \<Rightarrow> resp_body" where
  "limiter_message env =
     LimitBody ''Too many requests from this IP, please try again later.'' (retryAfter env)"

text \<open>
  The limiter itself is the library's: a count of requests for each client address and
  the time at which the client's window ends. A request after that time opens a new
  window. A request that takes the count above the maximum is answered with status 429
  and the configured message; \<open>None\<close> lets the request through to the route.
\<close>

type_synonym limiter_state = "string \<Rightarrow> (int \<times> int) option"

definition limiter ::
  "limiter_env \<Rightarrow> limiter_state \<Rightarrow> string \<Rightarrow> int \<Rightarrow> limiter_state \<times> response option" where
  "limiter env st ip now =
     (let (hits, reset) =
            (case st ip of
               None \<Rightarrow> (1, now + windowMs env)
             | Some (h, r) \<Rightarrow> if now < r then (h + 1, r) else (1, now + windowMs env))
      in (st(ip \<mapsto> (hits, reset)),
          if max_requests env < hits then Some (429, limiter_message env) else None))"

text \<open>The requests of one client at the given times, in order; the last answer.\<close>

fun limiter_run ::
  "limiter_env \<Rightarrow> limiter_state \<Rightarrow> string \<Rightarrow> int list \<Rightarrow> limiter_state \<times> response option" where
  "limiter_run env st ip [] = (st, None)"
| "limiter_run env st ip [now] = limiter env st ip now"
| "limiter_run env st ip (now # later) = limiter_run env (fst (limiter env st ip now)) ip later"

text \<open>What is left of a client's window at a time, in seconds.\<close>

definition remaining_seconds :: "limiter_state \<Rightarrow> string \<Rightarrow> int \<Rightarrow> real" where
  "remaining_seconds st ip now =
     (case st ip of None \<Rightarrow> 0 | Some (h, r) \<Rightarrow> real_of_int (r - now) / 1000)"

text \<open>The number that a finite double stands for.\<close>

fun jsnum_value :: "jsnum \<Rightarrow> real option" where
  "jsnum_value (Fin m e) = Some (real_of_int m * 2 powi e)"
| "jsnum_value x = None"

text \<open>
  A payload that fails validation, as the specification lists it: the text is not a
  string, or is shorter than 200 or longer than 10000 characters, or a tone or a length
  is present and is not one of the enumerated words.
\<close>

definition spec_invalid :: "body \<Rightarrow> bool" where
  "spec_invalid b =
     ((case body_text b of Some (JStr s) \<Rightarrow> length s < 200 \<or> 10000 < length s | _ \<Rightarrow> True)
      \<or> (case body_tone b of None \<Rightarrow> False
          | Some v \<Rightarrow> v \<notin> set (map JStr [''professional'', ''casual'', ''academic'', ''creative'']))
      \<or> (case body_length b of None \<Rightarrow> False
          | Some v \<Rightarrow> v \<notin> set (map JStr [''short'', ''medium'', ''long''])))"

text \<open>
  The number of words of a string, read off the string itself: a word starts at each
  character that is not white space and that is the first of the string or follows white
  space. The flag tells whether the previous character was white space (or there was
  none).
\<close>

fun word_starts :: "bool \<Rightarrow> string \<Rightarrow> nat" where
  "word_starts prev_space [] = 0"
| "word_starts prev_space (c # cs) =
     (if is_space c then word_starts True cs
      else (if prev_space then 1 else 0) + word_starts False cs)"

section \<open>Example inputs\<close>

definition example_body :: body where
  "example_body =
     \<lparr>body_text = Some (JStr (replicate 200 CHR ''a'')), body_tone = None, body_length = None\<rparr>"

definition short_body :: body where
  "short_body =
     \<lparr>body_text = Some (JStr ''This is a very short text''), body_tone = None, body_length = None\<rparr>"

definition blank_body :: body where
  "blank_body =
     \<lparr>body_text = Some (JStr (replicate 200 CHR 0x20)), body_tone = None, body_length = None\<rparr>"

definition fixed_gateway :: "string \<Rightarrow> string \<Rightarrow> gateway_result" where
  "fixed_gateway content p = Completion (Some content)"

text \<open>A text of 150 words, its summary of 25 words, and the data of the response to it.\<close>

definition words_body :: body where
  "words_body =
     \<lparr>body_text = Some (JStr (concat (replicate 150 ''word ''))), body_tone = None,
      body_length = None\<rparr>"

definition words_summary :: string where
  "words_summary = concat (replicate 25 ''word '')"

definition words_data :: summary_data where
  "words_data =
     \<lparr>originalText = concat (replicate 150 ''word ''),
      summary = trim words_summary,
      originalWordCount = 150,
      summaryWordCount = 25,
      compressionRatio = Some ''83.3%'',
      settings = \<lparr>tone = Some (JStr ''professional''), length_setting = Some (JStr ''medium'')\<rparr>,
      model = ''llama-3.3-70b-versatile''\<rparr>"

text \<open>A limiter that allows two requests in the default window, and one with a short window.\<close>

definition two_per_window :: limiter_env where
  "two_per_window = \<lparr>RATE_LIMIT_WINDOW_MS = None, RATE_LIMIT_MAX_REQUESTS = Some 2\<rparr>"

definition short_window :: limiter_env where
  "short_window = \<lparr>RATE_LIMIT_WINDOW_MS = Some 1500, RATE_LIMIT_MAX_REQUESTS = None\<rparr>"

definition failing_gateway :: "int \<Rightarrow> string \<Rightarrow> string \<Rightarrow> gateway_result" where
  "failing_gateway st msg p = Failure \<lparr>err_status = Some st, err_message = Some msg\<rparr>"

section \<open>Facts about the route\<close>

lemma valid_text:
  "validateSummarizeRequest b = [] \<Longrightarrow>
     \<exists>s. body_text b = Some (JStr s) \<and> 200 \<le> length s \<and> length s \<le> 10000"
  by (auto simp: validateSummarizeRequest_def isString_def isLength_min_def isLength_max_def
           split: option.splits jsval.splits if_splits)

lemma summarize_failure:
  assumes "validateSummarizeRequest b = []" and "body_text b = Some (JStr s)"
    and "gateway (prompt s (with_default (body_tone b) ''professional'')
                   (with_default (body_length b) ''medium'')) = Failure e"
  shows "fst (summarize node_env now gateway b) = handle_error node_env e"
  using assms by (simp add: summarize_def)

lemma summarize_provider_error:
  assumes "validateSummarizeRequest b = []" and "\<forall>p. gateway p = Failure e"
  shows "fst (summarize node_env now gateway b) = handle_error node_env e"
proof -
  from assms(1) obtain s where s: "body_text b = Some (JStr s)"
    using valid_text by blast
  show ?thesis
    by (rule summarize_failure [where s = s]) (simp_all add: assms s)
qed

lemma validate_cases: "validateSummarizeRequest b \<noteq> [] \<longleftrightarrow> spec_invalid b"
  by (auto simp: validateSummarizeRequest_def spec_invalid_def isString_def isLength_min_def
        isLength_max_def isIn_def split: option.splits jsval.splits if_splits)

lemma example_body_valid: "validateSummarizeRequest example_body = []"
  by (simp add: example_body_def validateSummarizeRequest_def isString_def isLength_min_def
        isLength_max_def)

lemma failing_gateway_fails:
  "\<forall>p. failing_gateway st msg p = Failure \<lparr>err_status = Some st, err_message = Some msg\<rparr>"
  by (simp add: failing_gateway_def)

section \<open>Provider errors\<close>

text \<open>
  C5. A provider failure with status 401 gives the response 500 with the error
  "Configuration error", whatever the message of the failure is.
\<close>

theorem auth_error_configuration_error:
  assumes "validateSummarizeRequest b = []"
    and "\<forall>p. gateway p = Failure e"
    and "err_status e = Some 401"
  shows "fst (summarize node_env now gateway b)
           = (500, ErrorBody ''Configuration error'' ''API key is invalid or missing'' None)"
  using summarize_provider_error [OF assms(1,2)] assms(3)
  by (simp add: handle_error_def)

theorem auth_error_configuration_error_witness:
  "fst (summarize None ''2025-07-27T16:21:00.000Z'' (failing_gateway 401 ''Invalid API Key'')
          example_body)
     = (500, ErrorBody ''Configuration error'' ''API key is invalid or missing'' None)"
proof -
  have status: "err_status \<lparr>err_status = Some 401, err_message = Some ''Invalid API Key''\<rparr> = Some 401"
    by simp
  show ?thesis
    by (rule auth_error_configuration_error [OF example_body_valid failing_gateway_fails status])
qed

text \<open>
  C6. A provider failure with status 429 gives the status 503, which is neither 500
  nor 429.
\<close>

theorem provider_rate_limit_503:
  assumes "validateSummarizeRequest b = []"
    and "\<forall>p. gateway p = Failure e"
    and "err_status e = Some 429"
  shows "fst (fst (summarize node_env now gateway b)) = 503
         \<and> fst (fst (summarize node_env now gateway b)) \<noteq> 500
         \<and> fst (fst (summarize node_env now gateway b)) \<noteq> 429"
  using summarize_provider_error [OF assms(1,2)] assms(3)
  by (simp add: handle_error_def)

theorem provider_rate_limit_503_witness:
  "fst (fst (summarize None ''2025-07-27T16:21:00.000Z''
               (failing_gateway 429 ''Rate limit reached'') example_body)) = 503"
proof -
  have status:
    "err_status \<lparr>err_status = Some 429, err_message = Some ''Rate limit reached''\<rparr> = Some 429"
    by simp
  from provider_rate_limit_503 [OF example_body_valid failing_gateway_fails status]
  show ?thesis by simp
qed

text \<open>
  C10. The tests on a provider error are made in a fixed order: status 429, then status
  401, then a message that contains "context_length", then the generic answer. So an error
  with status 429 whose message contains "context_length" is answered with 503 and not
  with 400.
\<close>

theorem provider_error_priority:
  "(err_status e = Some 429 \<longrightarrow>
      handle_error node_env e
        = (503, ErrorBody ''Service temporarily unavailable due to rate limits''
                  ''Please try again later'' None))
   \<and> (err_status e = Some 401 \<longrightarrow>
      handle_error node_env e
        = (500, ErrorBody ''Configuration error'' ''API key is invalid or missing'' None))
   \<and> (err_status e \<noteq> Some 429 \<and> err_status e \<noteq> Some 401
        \<and> err_message e = Some m \<and> includes_str m ''context_length'' \<longrightarrow>
      handle_error node_env e
        = (400, ErrorBody ''Text too long''
                  ''The provided text exceeds the maximum allowed length'' None))
   \<and> (err_status e \<noteq> Some 429 \<and> err_status e \<noteq> Some 401
        \<and> (\<forall>m. err_message e = Some m \<longrightarrow> \<not> includes_str m ''context_length'') \<longrightarrow>
      handle_error node_env e
        = (500, ErrorBody ''Internal server error''
                  ''Failed to generate summary. Please try again.''
                  (if node_env = Some ''development'' then err_message e else None)))
   \<and> (validateSummarizeRequest b = [] \<and> (\<forall>p. gateway p = Failure e)
        \<and> err_status e = Some 429 \<and> err_message e = Some m
        \<and> includes_str m ''context_length'' \<longrightarrow>
      fst (fst (summarize node_env now gateway b)) = 503
      \<and> fst (fst (summarize node_env now gateway b)) \<noteq> 400)"
proof (intro conjI impI)
  assume "validateSummarizeRequest b = [] \<and> (\<forall>p. gateway p = Failure e)
        \<and> err_status e = Some 429 \<and> err_message e = Some m
        \<and> includes_str m ''context_length''"
  then have v: "validateSummarizeRequest b = []" and g: "\<forall>p. gateway p = Failure e"
    and st: "err_status e = Some 429"
    by simp_all
  from summarize_provider_error [OF v g] st
  have "fst (fst (summarize node_env now gateway b)) = 503"
    by (simp add: handle_error_def)
  then show "fst (fst (summarize node_env now gateway b)) = 503"
    and "fst (fst (summarize node_env now gateway b)) \<noteq> 400"
    by simp_all
qed (auto simp: handle_error_def split: option.splits)

theorem provider_error_priority_witness:
  "fst (fst (summarize None ''2025-07-27T16:21:00.000Z''
               (failing_gateway 429 ''context_length exceeded'') example_body)) = 503
   \<and> handle_error None \<lparr>err_status = Some 401, err_message = Some ''context_length exceeded''\<rparr>
       = (500, ErrorBody ''Configuration error'' ''API key is invalid or missing'' None)
   \<and> handle_error None \<lparr>err_status = Some 400, err_message = Some ''context_length exceeded''\<rparr>
       = (400, ErrorBody ''Text too long''
                 ''The provided text exceeds the maximum allowed length'' None)"
proof -
  let ?m = "''context_length exceeded''"
  have inc: "includes_str ?m ''context_length''"
    by simp
  have a: "validateSummarizeRequest example_body = []
        \<and> (\<forall>p. failing_gateway 429 ?m p = Failure \<lparr>err_status = Some 429, err_message = Some ?m\<rparr>)
        \<and> err_status \<lparr>err_status = Some 429, err_message = Some ?m\<rparr> = Some 429
        \<and> err_message \<lparr>err_status = Some 429, err_message = Some ?m\<rparr> = Some ?m
        \<and> includes_str ?m ''context_length''"
    using example_body_valid failing_gateway_fails inc by simp
  have first: "fst (fst (summarize None ''2025-07-27T16:21:00.000Z''
               (failing_gateway 429 ?m) example_body)) = 503"
    using provider_error_priority
      [of "\<lparr>err_status = Some 429, err_message = Some ?m\<rparr>" None ?m example_body
          "failing_gateway 429 ?m" "''2025-07-27T16:21:00.000Z''"] a
    by blast
  have second: "handle_error None \<lparr>err_status = Some 401, err_message = Some ?m\<rparr>
       = (500, ErrorBody ''Configuration error'' ''API key is invalid or missing'' None)"
    using provider_error_priority [of "\<lparr>err_status = Some 401, err_message = Some ?m\<rparr>" None]
    by simp
  have third: "handle_error None \<lparr>err_status = Some 400, err_message = Some ?m\<rparr>
       = (400, ErrorBody ''Text too long''
                 ''The provided text exceeds the maximum allowed length'' None)"
    using provider_error_priority
      [of "\<lparr>err_status = Some 400, err_message = Some ?m\<rparr>" None ?m] inc
    by simp
  from first second third show ?thesis by simp
qed


section \<open>Validation and defaults\<close>

text \<open>
  C7. A payload that fails validation (the text is not a string, or is shorter than 200
  or longer than 10000 characters, or a tone or length is present and outside its
  enumeration) is answered with 400, the error "Validation failed" and a non-empty list
  of details, each for one of the three fields; no prompt is sent to the provider.
\<close>

theorem validation_failure_short_circuits:
  assumes "spec_invalid b"
  shows "summarize node_env now gateway b
           = ((400, ValidationBody ''Validation failed'' (validateSummarizeRequest b)), [])
         \<and> validateSummarizeRequest b \<noteq> []
         \<and> (\<forall>d \<in> set (validateSummarizeRequest b). fst d \<in> {''text'', ''tone'', ''length''})"
proof -
  from assms have ne: "validateSummarizeRequest b \<noteq> []"
    by (simp add: validate_cases)
  then have "summarize node_env now gateway b
           = ((400, ValidationBody ''Validation failed'' (validateSummarizeRequest b)), [])"
    by (simp add: summarize_def)
  moreover have "\<forall>d \<in> set (validateSummarizeRequest b). fst d \<in> {''text'', ''tone'', ''length''}"
    by (auto simp: validateSummarizeRequest_def split: option.splits if_splits)
  ultimately show ?thesis
    using ne by simp
qed

theorem validation_failure_short_circuits_witness:
  "spec_invalid short_body
   \<and> summarize None ''2025-07-27T16:21:00.000Z'' (\<lambda>p. Completion (Some ''A summary.'')) short_body
       = ((400, ValidationBody ''Validation failed''
                  [(''text'', ''Text must be at least 200 characters long'')]), [])"
proof -
  have inv: "spec_invalid short_body"
    by (simp add: spec_invalid_def short_body_def)
  have errs: "validateSummarizeRequest short_body
                = [(''text'', ''Text must be at least 200 characters long'')]"
    by (simp add: validateSummarizeRequest_def short_body_def isString_def isLength_min_def
          isLength_max_def)
  from validation_failure_short_circuits [OF inv] errs inv show ?thesis
    by simp
qed

text \<open>
  C9. A valid request without tone and length is summarized with the tone
  "professional" and the length "medium": the prompt is built from them, and the settings
  of the successful response show them.
\<close>

theorem defaults_applied:
  assumes "body_text b = Some (JStr s)" and "200 \<le> length s" and "length s \<le> 10000"
    and "body_tone b = None" and "body_length b = None"
    and "gateway (prompt s (Some (JStr ''professional'')) (Some (JStr ''medium'')))
           = Completion (Some content)"
  shows "\<exists>d. summarize node_env now gateway b
               = ((200, SummaryBody d now),
                  [prompt s (Some (JStr ''professional'')) (Some (JStr ''medium''))])
             \<and> settings d = \<lparr>tone = Some (JStr ''professional''),
                               length_setting = Some (JStr ''medium'')\<rparr>"
proof -
  have "validateSummarizeRequest b = []"
    using assms(1-5)
    by (simp add: validateSummarizeRequest_def isString_def isLength_min_def isLength_max_def)
  then show ?thesis
    using assms by (simp add: summarize_def with_default_def Let_def)
qed

theorem defaults_applied_witness:
  "\<exists>d. summarize None ''2025-07-27T16:21:00.000Z'' (\<lambda>p. Completion (Some ''A summary.''))
          example_body
        = ((200, SummaryBody d ''2025-07-27T16:21:00.000Z''),
           [prompt (replicate 200 CHR ''a'') (Some (JStr ''professional'')) (Some (JStr ''medium''))])
      \<and> settings d = \<lparr>tone = Some (JStr ''professional''), length_setting = Some (JStr ''medium'')\<rparr>"
proof -
  have t: "body_text example_body = Some (JStr (replicate 200 CHR ''a''))"
    and tn: "body_tone example_body = None" and ln: "body_length example_body = None"
    by (simp_all add: example_body_def)
  have lo: "200 \<le> length (replicate 200 CHR ''a'')"
    and hi: "length (replicate 200 CHR ''a'') \<le> 10000"
    by simp_all
  have g: "(\<lambda>p. Completion (Some ''A summary.''))
             (prompt (replicate 200 CHR ''a'') (Some (JStr ''professional'')) (Some (JStr ''medium'')))
           = Completion (Some ''A summary.'')"
    by simp
  show ?thesis
    by (rule defaults_applied [OF t lo hi tn ln g])
qed

section \<open>The prompt\<close>

text \<open>
  C2, as the specification states it, fails: the instruction of the code reads "Focus on
  the key points and main ideas:" and is followed by an empty line before the text.
\<close>

theorem prompt_is_not_spec_prompt:
  "prompt (replicate 200 CHR ''a'') (Some (JStr ''casual'')) (Some (JStr ''short''))
     \<noteq> spec_prompt (replicate 200 CHR ''a'') (Some (JStr ''casual'')) (Some (JStr ''short''))"
  by (simp add: prompt_def spec_prompt_def getSummaryLength_def getToneInstruction_def)

text \<open>
  C2, amended. The prompt is "Summarize this content in <length phrase>. <tone clause>
  Focus on the key points and main ideas:", two line feeds, and the source text. The
  length phrase is "1-2 sentences" for short, "4-6 sentences" for long and "2-4 sentences"
  for every other value; the tone clause is the fixed sentence of each of the four tones
  and empty for every other value, an absent one included.
\<close>

theorem prompt_built:
  "prompt text t l
     = ''Summarize this content in '' @ getSummaryLength l @ ''. '' @ getToneInstruction t
         @ '' Focus on the key points and main ideas:'' @ [CHR 0x0A, CHR 0x0A] @ text
   \<and> getSummaryLength (Some (JStr ''short'')) = ''1-2 sentences''
   \<and> getSummaryLength (Some (JStr ''long'')) = ''4-6 sentences''
   \<and> (l \<noteq> Some (JStr ''short'') \<and> l \<noteq> Some (JStr ''long'')
        \<longrightarrow> getSummaryLength l = ''2-4 sentences'')
   \<and> getToneInstruction (Some (JStr ''professional'')) = ''Use a professional and formal tone.''
   \<and> getToneInstruction (Some (JStr ''casual'')) = ''Use a casual and conversational tone.''
   \<and> getToneInstruction (Some (JStr ''academic'')) = ''Use an academic and scholarly tone.''
   \<and> getToneInstruction (Some (JStr ''creative'')) = ''Use a creative and engaging tone.''
   \<and> (t \<notin> set (map (\<lambda>w. Some (JStr w)) [''professional'', ''casual'', ''academic'', ''creative''])
        \<longrightarrow> getToneInstruction t = [])"
  by (simp add: prompt_def getSummaryLength_def getToneInstruction_def)

theorem prompt_built_witness:
  "prompt ''abc'' None (Some (JStr ''medium''))
     = ''Summarize this content in 2-4 sentences.  Focus on the key points and main ideas:''
         @ [CHR 0x0A, CHR 0x0A] @ ''abc''"
proof -
  have l: "Some (JStr ''medium'') \<noteq> Some (JStr ''short'')
           \<and> Some (JStr ''medium'') \<noteq> Some (JStr ''long'')"
    by simp
  have t: "None \<notin> set (map (\<lambda>w. Some (JStr w))
                      [''professional'', ''casual'', ''academic'', ''creative''])"
    by simp
  from prompt_built [of "''abc''" None "Some (JStr ''medium'')"] l t
  have "prompt ''abc'' None (Some (JStr ''medium''))
          = ''Summarize this content in '' @ ''2-4 sentences'' @ ''. '' @ []
              @ '' Focus on the key points and main ideas:'' @ [CHR 0x0A, CHR 0x0A] @ ''abc''"
    by metis
  then show ?thesis by simp
qed


section \<open>Word count\<close>

lemma word_starts_leading:
  "\<forall>x \<in> set w. is_space x \<Longrightarrow> word_starts True (w @ s) = word_starts True s"
  by (induction w) simp_all

lemma word_starts_dropWhile:
  "word_starts True (dropWhile is_space s) = word_starts True s"
  by (induction s) simp_all

lemma word_starts_trailing:
  "\<forall>x \<in> set w. is_space x \<Longrightarrow> word_starts p (s @ w) = word_starts p s"
proof (induction s arbitrary: p)
  case Nil
  then show ?case by (induction w arbitrary: p) simp_all
next
  case (Cons c s)
  then show ?case by simp
qed

lemma count_split_from:
  "length (filter (\<lambda>word. word \<noteq> []) (split_from cur s))
     = word_starts (cur = []) s + (if cur = [] then 0 else 1)"
proof (induction cur s rule: split_from.induct)
  case (1 cur)
  then show ?case by simp
next
  case (2 cur c cs)
  show ?case
  proof (cases "is_space c")
    case True
    with 2 show ?thesis by (simp add: word_starts_dropWhile)
  next
    case False
    with 2 have "length (filter (\<lambda>word. word \<noteq> []) (split_from (cur @ [c]) cs))
                   = word_starts False cs + 1"
      by simp
    with False show ?thesis by simp
  qed
qed

lemma strip_end:
  "\<exists>w. s = rev (dropWhile P (rev s)) @ w \<and> (\<forall>x \<in> set w. P x)"
proof -
  have "rev s = takeWhile P (rev s) @ dropWhile P (rev s)"
    by simp
  then have "s = rev (dropWhile P (rev s)) @ rev (takeWhile P (rev s))"
    by (metis rev_append rev_rev_ident)
  moreover have "\<forall>x \<in> set (rev (takeWhile P (rev s))). P x"
    by (auto dest: set_takeWhileD)
  ultimately show ?thesis by blast
qed

lemma word_starts_trim: "word_starts True (trim s) = word_starts True s"
proof -
  obtain w where w: "dropWhile is_space s = trim s @ w" and sp: "\<forall>x \<in> set w. is_space x"
    using strip_end [of "dropWhile is_space s" is_space] by (auto simp: trim_def)
  have "word_starts True s = word_starts True (dropWhile is_space s)"
    by (simp add: word_starts_dropWhile)
  also have "\<dots> = word_starts True (trim s)"
    using word_starts_trailing [OF sp] w by simp
  finally show ?thesis by simp
qed

lemma countWords_word_starts: "countWords s = word_starts True s"
proof -
  have "countWords s = length (filter (\<lambda>word. word \<noteq> []) (split_from [] (trim s)))"
    by (simp add: countWords_def split_ws_def)
  also have "\<dots> = word_starts True (trim s)"
    by (simp add: count_split_from)
  finally show ?thesis
    by (simp add: word_starts_trim)
qed

lemma word_starts_extra_space:
  "is_space c \<Longrightarrow> \<forall>x \<in> set w. is_space x \<Longrightarrow>
     word_starts p (u @ c # w @ v) = word_starts p (u @ c # v)"
proof (induction u arbitrary: p)
  case Nil
  then show ?case by (simp add: word_starts_leading)
next
  case (Cons a u)
  then show ?case by simp
qed

text \<open>
  C8. The word count is the number of non-empty pieces between runs of white space,
  which is the number of places where a word starts. White space added next to white
  space, anywhere in the string, does not change the count; three words separated by two
  spaces and a tab count 3, the empty string and a string of three spaces count 0.
\<close>

theorem countWords_whitespace_insensitive:
  "countWords s = word_starts True s
   \<and> (is_space c \<and> (\<forall>x \<in> set w. is_space x)
        \<longrightarrow> countWords (u @ c # w @ v) = countWords (u @ c # v))
   \<and> countWords (''a  b'' @ [CHR 0x09] @ ''c'') = 3
   \<and> countWords [] = 0
   \<and> countWords ''   '' = 0"
proof (intro conjI impI)
  show "countWords s = word_starts True s"
    by (rule countWords_word_starts)
  show "countWords (u @ c # w @ v) = countWords (u @ c # v)"
    if "is_space c \<and> (\<forall>x \<in> set w. is_space x)"
    using that by (simp add: countWords_word_starts word_starts_extra_space)
  show "countWords (''a  b'' @ [CHR 0x09] @ ''c'') = 3"
    by (simp add: countWords_word_starts is_space_def)
  show "countWords [] = 0"
    by (simp add: countWords_word_starts)
  show "countWords ''   '' = 0"
    by (simp add: countWords_word_starts is_space_def)
qed

theorem countWords_whitespace_insensitive_witness:
  "is_space CHR 0x20 \<and> is_space CHR 0x09
   \<and> countWords (''a'' @ CHR 0x20 # [CHR 0x20, CHR 0x09] @ ''b'') = countWords (''a'' @ CHR 0x20 # ''b'')
   \<and> countWords (''a'' @ CHR 0x20 # ''b'') = 2"
proof -
  have sp: "is_space CHR 0x20 \<and> (\<forall>x \<in> set [CHR 0x20, CHR 0x09]. is_space x)"
    by (simp add: is_space_def)
  have tab: "is_space CHR 0x09"
    by (simp add: is_space_def)
  have two: "countWords (''a'' @ CHR 0x20 # ''b'') = 2"
    by (simp add: countWords_def split_ws_def trim_def is_space_def)
  from countWords_whitespace_insensitive
         [of "''a'' @ CHR 0x20 # ''b''" "CHR 0x20" "[CHR 0x20, CHR 0x09]" "''a''" "''b''"] sp two
  have "countWords (''a'' @ CHR 0x20 # [CHR 0x20, CHR 0x09] @ ''b'')
          = countWords (''a'' @ CHR 0x20 # ''b'')"
    by blast
  with sp tab two show ?thesis by simp
qed


section \<open>Rounding to a double\<close>

lemma round_half_even_error:
  fixes a b :: int
  assumes "0 < b"
  shows "\<bar>real_of_int (round_half_even a b) - real_of_int a / real_of_int b\<bar> \<le> 1 / 2"
proof -
  define q where "q = a div b"
  define r where "r = a mod b"
  have r: "0 \<le> r" "r < b"
    using assms by (simp_all add: r_def)
  have "a = b * q + r"
    by (simp add: q_def r_def)
  then have "real_of_int a = real_of_int b * real_of_int q + real_of_int r"
    by (metis of_int_add of_int_mult)
  then have quot: "real_of_int a / real_of_int b = real_of_int q + real_of_int r / real_of_int b"
    using assms by (simp add: field_simps)
  have rb: "0 \<le> real_of_int r / real_of_int b" "real_of_int r / real_of_int b < 1"
    using r assms by simp_all
  consider "2 * r < b" | "b < 2 * r" | "2 * r = b"
    by linarith
  then show ?thesis
  proof cases
    case 1
    then have "round_half_even a b = q"
      by (simp add: round_half_even_def Let_def q_def r_def)
    moreover from 1 have "real_of_int r / real_of_int b \<le> 1 / 2"
      using assms by (auto simp: field_simps)
    ultimately show ?thesis
      using quot rb by simp
  next
    case 2
    then have "round_half_even a b = q + 1"
      by (simp add: round_half_even_def Let_def q_def r_def)
    moreover from 2 have "1 / 2 \<le> real_of_int r / real_of_int b"
      using assms by (auto simp: field_simps)
    ultimately show ?thesis
      using quot rb by simp
  next
    case 3
    then have "round_half_even a b = q \<or> round_half_even a b = q + 1"
      by (simp add: round_half_even_def Let_def q_def r_def)
    moreover from 3 have "real_of_int r / real_of_int b = 1 / 2"
      using assms by (auto simp: field_simps)
    ultimately show ?thesis
      using quot by auto
  qed
qed

lemma scaled_quotient:
  fixes a b e :: int
  assumes "0 < b"
  shows "real_of_int (a * 2 ^ nat (- e)) / real_of_int (b * 2 ^ nat e)
           = real_of_int a / real_of_int b / 2 powi e"
proof (cases "0 \<le> e")
  case True
  then have "nat (- e) = 0" and "(2::real) powi e = 2 ^ nat e"
    by (simp_all add: power_int_def)
  then show ?thesis by simp
next
  case False
  define P :: real where "P = 2 ^ nat (- e)"
  have P: "0 < P"
    by (simp add: P_def)
  have e: "nat e = 0"
    using False by simp
  have "(2::real) powi e = 1 / P"
    using False by (simp add: power_int_def power_one_over P_def)
  moreover have "real_of_int (a * 2 ^ nat (- e)) = real_of_int a * P"
    by (simp add: P_def)
  ultimately show ?thesis
    using P e by simp
qed

lemma scaled_le:
  fixes a b k :: int
  assumes "0 < b"
  shows "b * 2 ^ nat k \<le> a * 2 ^ nat (- k) \<longleftrightarrow> 2 powi k \<le> real_of_int a / real_of_int b"
proof -
  define x where "x = real_of_int a / real_of_int b"
  have pos: "0 < real_of_int (b * 2 ^ nat k)"
    using assms by simp
  have "b * 2 ^ nat k \<le> a * 2 ^ nat (- k)
          \<longleftrightarrow> real_of_int (b * 2 ^ nat k) \<le> real_of_int (a * 2 ^ nat (- k))"
    by (simp only: of_int_le_iff)
  also have "\<dots> \<longleftrightarrow> 1 \<le> real_of_int (a * 2 ^ nat (- k)) / real_of_int (b * 2 ^ nat k)"
    using pos by (simp only: le_divide_eq_1_pos)
  also have "\<dots> \<longleftrightarrow> 1 \<le> x / 2 powi k"
    by (simp only: scaled_quotient [OF assms] x_def)
  also have "\<dots> \<longleftrightarrow> 2 powi k \<le> x"
    by (simp add: pos_le_divide_eq)
  finally show ?thesis
    by (simp only: x_def)
qed

lemma bitlen_powi:
  fixes a :: int
  assumes "0 < a"
  shows "2 powi (bitlen a - 1) \<le> real_of_int a" and "real_of_int a < 2 powi bitlen a"
proof -
  from assms have ge: "1 \<le> bitlen a"
    by (auto simp: bitlen_alt_def)
  from bitlen_bounds [OF assms]
  have lo: "2 ^ nat (bitlen a - 1) \<le> a" and hi: "a < 2 ^ nat (bitlen a)"
    by simp_all
  from lo have "real_of_int (2 ^ nat (bitlen a - 1)) \<le> real_of_int a"
    by (simp only: of_int_le_iff)
  then show "2 powi (bitlen a - 1) \<le> real_of_int a"
    using ge by (simp add: power_int_def)
  from hi have "real_of_int a < real_of_int (2 ^ nat (bitlen a))"
    by (simp only: of_int_less_iff)
  then show "real_of_int a < 2 powi bitlen a"
    using ge by (simp add: power_int_def)
qed

lemma binary_exponent:
  fixes a b :: int
  assumes "0 < a" and "0 < b"
  defines "k \<equiv> bitlen a - bitlen b"
  defines "p \<equiv> (if b * 2 ^ nat k \<le> a * 2 ^ nat (- k) then k else k - 1)"
  shows "2 powi p \<le> real_of_int a / real_of_int b"
    and "real_of_int a / real_of_int b < 2 powi (p + 1)"
proof -
  define x where "x = real_of_int a / real_of_int b"
  have "x < 2 powi bitlen a / 2 powi (bitlen b - 1)"
    unfolding x_def
    using bitlen_powi [OF assms(1)] bitlen_powi [OF assms(2)] assms
    by (intro frac_less) simp_all
  also have "\<dots> = 2 powi (bitlen a - (bitlen b - 1))"
    by (subst power_int_diff) simp_all
  also have "bitlen a - (bitlen b - 1) = k + 1"
    by (simp add: k_def)
  finally have up: "x < 2 powi (k + 1)" .
  have "2 powi (bitlen a - 1) / 2 powi bitlen b \<le> x"
    unfolding x_def
    using bitlen_powi [OF assms(1)] bitlen_powi [OF assms(2)] assms
    by (intro frac_le) simp_all
  moreover have "(2::real) powi (bitlen a - 1) / 2 powi bitlen b = 2 powi (bitlen a - 1 - bitlen b)"
    by (subst power_int_diff) simp_all
  moreover have "bitlen a - 1 - bitlen b = k - 1"
    by (simp add: k_def)
  ultimately have low: "2 powi (k - 1) \<le> x"
    by simp
  have test: "b * 2 ^ nat k \<le> a * 2 ^ nat (- k) \<longleftrightarrow> 2 powi k \<le> x"
    unfolding x_def by (rule scaled_le [OF assms(2)])
  show "2 powi p \<le> real_of_int a / real_of_int b"
    using low test by (simp add: p_def x_def)
  show "real_of_int a / real_of_int b < 2 powi (p + 1)"
    using up test by (auto simp: p_def x_def)
qed

lemma round_ratio_normal_strong:
  fixes a b :: int
  assumes a: "a \<noteq> 0" and b: "0 < b"
    and lo: "2 powi l \<le> \<bar>real_of_int a\<bar> / real_of_int b" and l: "- 1022 \<le> l"
    and hi: "\<bar>real_of_int a\<bar> / real_of_int b < 2 powi h" and h: "h \<le> 1023"
  shows "\<exists>m e. round_ratio a b = Fin m e
           \<and> \<bar>real_of_int m * 2 powi e - real_of_int a / real_of_int b\<bar>
               \<le> \<bar>real_of_int a\<bar> / real_of_int b / 2 ^ 53
           \<and> (0 < m \<longleftrightarrow> 0 < a) \<and> m \<noteq> 0
           \<and> \<bar>real_of_int m - real_of_int a / real_of_int b / 2 powi e\<bar> \<le> 1 / 2
           \<and> 2 powi (e + 52) \<le> \<bar>real_of_int a\<bar> / real_of_int b"
proof -
  let ?k = "bitlen \<bar>a\<bar> - bitlen b"
  let ?p = "if b * 2 ^ nat ?k \<le> \<bar>a\<bar> * 2 ^ nat (- ?k) then ?k else ?k - 1"
  let ?e = "max (?p - 52) (- 1074)"
  let ?m = "round_half_even (a * 2 ^ nat (- ?e)) (b * 2 ^ nat ?e)"
  have rr: "round_ratio a b =
              (if 0 \<le> ?e \<and> 2 ^ 1024 \<le> \<bar>?m\<bar> * 2 ^ nat ?e
               then (if 0 < a then PosInf else NegInf) else Fin ?m ?e)"
    using a by (simp only: round_ratio_def Let_def if_False)
  define p where "p = ?p"
  define e where "e = ?e"
  define m where "m = ?m"
  define X where "X = \<bar>real_of_int a\<bar> / real_of_int b"
  define y where "y = real_of_int a / real_of_int b / 2 powi e"
  have apos: "0 < \<bar>a\<bar>"
    using a by simp
  have X_alt: "X = real_of_int \<bar>a\<bar> / real_of_int b"
    by (simp add: X_def)
  have p_lo: "2 powi p \<le> X" and p_hi: "X < 2 powi (p + 1)"
    unfolding p_def X_alt using binary_exponent [OF apos b] by simp_all
  have exp_less: "i < j" if "(2::real) powi i < 2 powi j" for i j :: int
  proof (rule ccontr)
    assume "\<not> i < j"
    then have "(2::real) powi j \<le> 2 powi i"
      by (intro power_int_increasing) simp_all
    with that show False by simp
  qed
  have "(2::real) powi l < 2 powi (p + 1)"
    using lo p_hi unfolding X_def by (rule le_less_trans)
  then have p1: "- 1022 \<le> p"
    using exp_less l by fastforce
  have "(2::real) powi p < 2 powi h"
    using p_lo hi unfolding X_def by (rule le_less_trans)
  then have p2: "p \<le> 1022"
    using exp_less h by fastforce
  have e_eq: "e = p - 52"
    using p1 by (simp add: e_def p_def)
  have Xpos: "0 < X"
    using a b by (simp add: X_def)
  have two_e: "(2::real) powi e = 2 powi p / 2 ^ 52"
    by (simp add: e_eq power_int_diff)
  have abs_y: "\<bar>y\<bar> = X / 2 powi e"
    using b by (simp add: y_def X_def abs_mult)
  have y_lo: "2 ^ 52 \<le> \<bar>y\<bar>"
  proof -
    have "2 powi p / 2 powi e \<le> X / 2 powi e"
      using p_lo by (simp add: divide_right_mono)
    then show ?thesis
      by (simp add: abs_y two_e)
  qed
  have y_hi: "\<bar>y\<bar> < 2 ^ 53"
  proof -
    have "X / 2 powi e < 2 powi (p + 1) / 2 powi e"
      using p_hi by (simp add: divide_strict_right_mono)
    also have "\<dots> = 2 ^ 53"
      by (simp add: two_e power_int_add)
    finally show ?thesis
      by (simp add: abs_y)
  qed
  have m_y: "\<bar>real_of_int m - y\<bar> \<le> 1 / 2"
  proof -
    have "0 < b * 2 ^ nat e"
      using b by simp
    from round_half_even_error [OF this, of "a * 2 ^ nat (- e)"]
    show ?thesis
      unfolding m_def y_def e_def scaled_quotient [OF b] .
  qed
  have m_abs: "\<bar>m\<bar> \<le> 2 ^ 53"
  proof -
    have "\<bar>real_of_int m\<bar> < 2 ^ 53 + 1"
      using m_y y_hi by linarith
    then have "real_of_int \<bar>m\<bar> < real_of_int (2 ^ 53 + 1)"
      by simp
    then have "\<bar>m\<bar> < 2 ^ 53 + 1"
      by (simp only: of_int_less_iff)
    then show ?thesis by simp
  qed
  have no_overflow: "\<not> (0 \<le> e \<and> 2 ^ 1024 \<le> \<bar>m\<bar> * 2 ^ nat e)"
  proof
    assume ov: "0 \<le> e \<and> 2 ^ 1024 \<le> \<bar>m\<bar> * 2 ^ nat e"
    have "nat e \<le> 970"
      using p2 e_eq by simp
    then have "(2::int) ^ nat e \<le> 2 ^ 970"
      by (rule power_increasing) simp
    with m_abs have "\<bar>m\<bar> * 2 ^ nat e \<le> 2 ^ 53 * 2 ^ 970"
      by (intro mult_mono) simp_all
    also have "\<dots> < (2::int) ^ 1024"
      by simp
    finally show False
      using ov by simp
  qed
  have rr': "round_ratio a b = Fin m e"
    using no_overflow rr unfolding e_def m_def by (simp only: if_False)
  have big: "(1::real) \<le> 2 ^ 52"
    by simp
  have sign: "(0 < m \<longleftrightarrow> 0 < a) \<and> m \<noteq> 0"
  proof (cases "0 < a")
    case True
    then have "0 \<le> y"
      using b by (simp add: y_def)
    with y_lo have "2 ^ 52 \<le> y" by simp
    with m_y big have "0 < real_of_int m" by linarith
    with True show ?thesis by simp
  next
    case False
    with a have "a < 0" by simp
    then have "y \<le> 0"
      using b by (simp add: y_def divide_nonpos_pos)
    with y_lo have "y \<le> - (2 ^ 52)" by simp
    with m_y big have "real_of_int m < 0" by linarith
    with False show ?thesis by simp
  qed
  have err: "\<bar>real_of_int m * 2 powi e - real_of_int a / real_of_int b\<bar> \<le> X / 2 ^ 53"
  proof -
    have q: "real_of_int a / real_of_int b = y * 2 powi e"
      by (simp add: y_def)
    have "\<bar>real_of_int m * 2 powi e - real_of_int a / real_of_int b\<bar>
            = \<bar>real_of_int m - y\<bar> * 2 powi e"
      by (simp add: q abs_mult left_diff_distrib [symmetric])
    also have "\<dots> \<le> 1 / 2 * 2 powi e"
      using m_y by (intro mult_right_mono) simp_all
    also have "\<dots> = 2 powi p / 2 ^ 53"
      by (simp add: two_e)
    also have "\<dots> \<le> X / 2 ^ 53"
      using p_lo by (simp add: divide_right_mono)
    finally show ?thesis .
  qed
  have "2 powi (e + 52) \<le> X"
    using p_lo by (simp add: e_eq)
  with rr' err sign m_y show ?thesis
    unfolding X_def y_def by blast
qed

lemma round_ratio_normal:
  fixes a b :: int
  assumes "a \<noteq> 0" and "0 < b"
    and "2 powi l \<le> \<bar>real_of_int a\<bar> / real_of_int b" and "- 1022 \<le> l"
    and "\<bar>real_of_int a\<bar> / real_of_int b < 2 powi h" and "h \<le> 1023"
  shows "\<exists>m e. round_ratio a b = Fin m e
           \<and> \<bar>real_of_int m * 2 powi e - real_of_int a / real_of_int b\<bar>
               \<le> \<bar>real_of_int a\<bar> / real_of_int b / 2 ^ 53
           \<and> (0 < m \<longleftrightarrow> 0 < a) \<and> m \<noteq> 0"
  using round_ratio_normal_strong [OF assms] by blast

section \<open>Formatting with one decimal place\<close>

lemma digits_nonempty: "digits n \<noteq> []"
  by (subst digits.simps) simp

lemma digits_small: "n < 10 \<Longrightarrow> digits n = [''0123456789'' ! n]"
  by (subst digits.simps) simp

lemma digits_tenths:
  "(let d = digits n; d = (if length d \<le> 1 then ''0'' @ d else d)
    in butlast d @ ''.'' @ [last d])
     = digits (n div 10) @ ''.'' @ digits (n mod 10)"
proof (cases "n < 10")
  case True
  then show ?thesis
    by (simp add: digits_small Let_def)
next
  case False
  then have d: "digits n = digits (n div 10) @ [''0123456789'' ! (n mod 10)]"
    by (subst digits.simps) simp
  have "2 \<le> length (digits n)"
    using digits_nonempty [of "n div 10"]
    by (cases "digits (n div 10)") (simp_all add: d)
  then have "\<not> length (digits n) \<le> 1"
    by simp
  then show ?thesis
    by (simp add: Let_def d digits_small butlast_append)
qed

lemma toFixed1_finite:
  fixes m e :: int
  assumes "\<bar>real_of_int m * 2 powi e\<bar> < 10 ^ 21"
  shows "\<exists>n. toFixed1 (Fin m e) = Some (one_decimal (m < 0) n)
           \<and> \<bar>real n - 10 * \<bar>real_of_int m * 2 powi e\<bar>\<bar> \<le> 1 / 2"
proof -
  define v where "v = \<bar>real_of_int m * 2 powi e\<bar>"
  define N where "N = 2 * 10 * \<bar>m\<bar> * 2 ^ nat e + 2 ^ nat (- e)"
  define D :: int where "D = 2 * 2 ^ nat (- e)"
  define n where "n = nat (N div D)"
  have v_alt: "v = real_of_int \<bar>m\<bar> / real_of_int 1 / 2 powi (- e)"
    by (simp add: v_def abs_mult power_int_minus field_simps)
  have big: "\<not> 10 ^ 21 * 2 ^ nat (- e) \<le> \<bar>m\<bar> * 2 ^ nat e"
  proof
    assume "10 ^ 21 * 2 ^ nat (- e) \<le> \<bar>m\<bar> * 2 ^ nat e"
    then have "(10 ^ 21 :: int) * 2 ^ nat (- e) \<le> \<bar>m\<bar> * 2 ^ nat (- (- e))"
      by simp
    then have "2 powi (- e) \<le> real_of_int \<bar>m\<bar> / real_of_int (10 ^ 21)"
      by (subst (asm) scaled_le) simp_all
    then have "10 ^ 21 \<le> v"
      by (simp add: v_def abs_mult power_int_minus field_simps)
    with assms show False
      by (simp add: v_def)
  qed
  have Dpos: "0 < D"
    by (simp add: D_def)
  have quot: "real_of_int N / real_of_int D = 10 * v + 1 / 2"
  proof -
    have "real_of_int (\<bar>m\<bar> * 2 ^ nat (- (- e))) / real_of_int (1 * 2 ^ nat (- e))
            = real_of_int \<bar>m\<bar> / real_of_int 1 / 2 powi (- e)"
      by (rule scaled_quotient) simp
    then have "real_of_int \<bar>m\<bar> * 2 ^ nat e / 2 ^ nat (- e) = v"
      by (simp add: v_alt)
    then have "10 * v = 2 * 10 * real_of_int \<bar>m\<bar> * 2 ^ nat e / (2 * 2 ^ nat (- e))"
      by simp
    then show ?thesis
      by (simp add: N_def D_def add_divide_distrib)
  qed
  have "real_of_int (N div D) = real_of_int \<lfloor>real_of_int N / real_of_int D\<rfloor>"
    by (simp add: floor_divide_of_int_eq)
  then have fl: "real_of_int (N div D) = real_of_int \<lfloor>10 * v + 1 / 2\<rfloor>"
    by (simp only: quot)
  have vpos: "0 \<le> v"
    by (simp add: v_def)
  then have "0 \<le> \<lfloor>10 * v + 1 / 2\<rfloor>"
    by simp
  then have "0 \<le> N div D"
    using fl by linarith
  then have n_real: "real n = real_of_int \<lfloor>10 * v + 1 / 2\<rfloor>"
    using fl by (simp add: n_def)
  have "\<bar>real n - 10 * v\<bar> \<le> 1 / 2"
    unfolding n_real by linarith
  moreover have "toFixed1 (Fin m e) = Some (one_decimal (m < 0) n)"
    using big digits_tenths [of n]
    by (simp add: one_decimal_def n_def N_def D_def Let_def)
  ultimately show ?thesis
    unfolding v_def by blast
qed

section \<open>The compression ratio\<close>

lemma js_div_error:
  fixes a :: int and ori :: nat
  assumes a: "a \<noteq> 0" and "0 < ori" and a32: "\<bar>a\<bar> < 2 ^ 32" and o32: "ori < 2 ^ 32"
  shows "\<exists>m e. js_div a ori = Fin m e
           \<and> \<bar>real_of_int m * 2 powi e - real_of_int a / real ori\<bar>
               \<le> \<bar>real_of_int a\<bar> / real ori / 2 ^ 53
           \<and> (0 < m \<longleftrightarrow> 0 < a) \<and> m \<noteq> 0"
proof -
  have b: "0 < int ori"
    using assms by simp
  have "1 \<le> \<bar>a\<bar>"
    using a by simp
  then have "real_of_int 1 \<le> real_of_int \<bar>a\<bar>"
    by (simp only: of_int_le_iff)
  then have one: "1 \<le> \<bar>real_of_int a\<bar>"
    by simp
  have "real ori < real (2 ^ 32)"
    using o32 by (simp only: of_nat_less_iff)
  then have o_hi: "real ori \<le> 2 ^ 32"
    by simp
  have o_lo: "1 \<le> real ori"
    using assms by simp
  have "real_of_int \<bar>a\<bar> < real_of_int (2 ^ 32)"
    using a32 by (simp only: of_int_less_iff)
  then have a_hi: "\<bar>real_of_int a\<bar> < 2 ^ 32"
    by simp
  have "1 / 2 ^ 32 \<le> \<bar>real_of_int a\<bar> / real ori"
    using one o_hi o_lo by (intro frac_le) simp_all
  then have lo: "2 powi (- 32) \<le> \<bar>real_of_int a\<bar> / real_of_int (int ori)"
    by (simp add: power_int_minus_divide)
  have "\<bar>real_of_int a\<bar> / real ori < 2 ^ 32 / 1"
    using a_hi o_lo by (intro frac_less) simp_all
  then have hi: "\<bar>real_of_int a\<bar> / real_of_int (int ori) < 2 powi 32"
    by simp
  from round_ratio_normal [OF a b lo _ hi]
  show ?thesis
    using assms by (simp add: js_div_def)
qed

lemma js_mul_100_error:
  fixes m1 e1 :: int
  assumes m1: "m1 \<noteq> 0"
    and lo: "1 / 2 ^ 33 \<le> \<bar>real_of_int m1 * 2 powi e1\<bar>"
    and hi: "\<bar>real_of_int m1 * 2 powi e1\<bar> < 2 ^ 33"
  shows "\<exists>m e. js_mul (Fin m1 e1) 100 = Fin m e
           \<and> \<bar>real_of_int m * 2 powi e - 100 * (real_of_int m1 * 2 powi e1)\<bar>
               \<le> 100 * \<bar>real_of_int m1 * 2 powi e1\<bar> / 2 ^ 53
           \<and> (0 < m \<longleftrightarrow> 0 < m1) \<and> m \<noteq> 0"
proof -
  define v where "v = real_of_int m1 * 2 powi e1"
  define a2 where "a2 = m1 * 100 * 2 ^ nat e1"
  define b2 :: int where "b2 = 2 ^ nat (- e1)"
  have a2: "a2 \<noteq> 0" and b2: "0 < b2"
    using m1 by (simp_all add: a2_def b2_def)
  have "real_of_int (m1 * 100 * 2 ^ nat (- (- e1))) / real_of_int (1 * 2 ^ nat (- e1))
          = real_of_int (m1 * 100) / real_of_int 1 / 2 powi (- e1)"
    by (rule scaled_quotient) simp
  then have q: "real_of_int a2 / real_of_int b2 = 100 * v"
    by (simp add: a2_def b2_def v_def power_int_minus field_simps)
  have "\<bar>real_of_int a2 / real_of_int b2\<bar> = \<bar>100 * v\<bar>"
    by (simp only: q)
  then have absq: "\<bar>real_of_int a2\<bar> / real_of_int b2 = 100 * \<bar>v\<bar>"
    using b2 by (simp add: abs_mult)
  have "2 powi (- 33) \<le> 100 * \<bar>v\<bar>"
    using lo by (simp add: v_def power_int_minus_divide)
  then have lo': "2 powi (- 33) \<le> \<bar>real_of_int a2\<bar> / real_of_int b2"
    by (simp only: absq)
  have "100 * \<bar>v\<bar> < 2 powi 40"
    using hi by (simp add: v_def)
  then have hi': "\<bar>real_of_int a2\<bar> / real_of_int b2 < 2 powi 40"
    by (simp only: absq)
  from round_ratio_normal [OF a2 b2 lo' _ hi']
  obtain m e where r: "round_ratio a2 b2 = Fin m e"
    and err: "\<bar>real_of_int m * 2 powi e - real_of_int a2 / real_of_int b2\<bar>
               \<le> \<bar>real_of_int a2\<bar> / real_of_int b2 / 2 ^ 53"
    and sg: "(0 < m \<longleftrightarrow> 0 < a2)" "m \<noteq> 0"
    by auto
  have "js_mul (Fin m1 e1) 100 = Fin m e"
    using r by (simp add: a2_def b2_def)
  moreover have "\<bar>real_of_int m * 2 powi e - 100 * v\<bar> \<le> 100 * \<bar>v\<bar> / 2 ^ 53"
    using err by (simp only: q absq)
  moreover have "0 < a2 \<longleftrightarrow> 0 < m1"
    by (simp add: a2_def zero_less_mult_iff)
  ultimately show ?thesis
    using sg unfolding v_def by blast
qed

lemma ratio_nearest_tenth:
  fixes ori summ :: nat
  assumes pos: "0 < ori" and o32: "ori < 2 ^ 32" and s32: "summ < 2 ^ 32"
  shows "\<exists>n. compression_ratio ori summ = Some (one_decimal (ori < summ) n @ ''%'')
           \<and> \<bar>tenths_value (ori < summ) n - exact_ratio ori summ\<bar> \<le> 1 / 20"
proof (cases "summ = ori")
  case True
  have "js_div 0 ori = Fin 0 0"
    using pos by (simp add: js_div_def round_ratio_def)
  then have "js_mul (js_div (int ori - int summ) ori) 100 = Fin 0 0"
    using True by (simp add: round_ratio_def)
  moreover obtain n where "toFixed1 (Fin 0 0) = Some (one_decimal ((0::int) < 0) n)"
    and "\<bar>real n - 10 * \<bar>real_of_int 0 * 2 powi 0\<bar>\<bar> \<le> 1 / 2"
    using toFixed1_finite [of 0 0] by auto
  ultimately have "compression_ratio ori summ = Some (one_decimal False n @ ''%'')" and "n = 0"
    by (simp_all add: compression_ratio_def)
  then show ?thesis
    using True by (auto simp: tenths_value_def exact_ratio_def)
next
  case False
  define a where "a = int ori - int summ"
  define X where "X = \<bar>real_of_int a\<bar> / real ori"
  define q where "q = real_of_int a / real ori"
  have a: "a \<noteq> 0"
    using False by (simp add: a_def)
  have a32: "\<bar>a\<bar> < 2 ^ 32"
  proof -
    have "int ori < 2 ^ 32" and "int summ < 2 ^ 32"
      using o32 s32 by (simp_all add: of_nat_less_numeral_power_cancel_iff)
    then show ?thesis
      by (simp add: a_def abs_less_iff)
  qed
  have opos: "0 < real ori"
    using pos by simp
  have absq: "\<bar>q\<bar> = X"
    using opos by (simp add: q_def X_def)
  have "real_of_int \<bar>a\<bar> < real_of_int (2 ^ 32)"
    using a32 by (simp only: of_int_less_iff)
  then have ra: "\<bar>real_of_int a\<bar> < 2 ^ 32"
    by simp
  have "1 \<le> \<bar>a\<bar>"
    using a by simp
  then have "real_of_int 1 \<le> real_of_int \<bar>a\<bar>"
    by (simp only: of_int_le_iff)
  then have ra1: "1 \<le> \<bar>real_of_int a\<bar>"
    by simp
  have "real ori < real (2 ^ 32)"
    using o32 by (simp only: of_nat_less_iff)
  then have ro: "real ori \<le> 2 ^ 32" and ro1: "1 \<le> real ori"
    using pos by simp_all
  have "1 / 2 ^ 32 \<le> \<bar>real_of_int a\<bar> / real ori"
    using ra1 ro ro1 by (intro frac_le) simp_all
  then have X_lo: "1 / 2 ^ 32 \<le> X"
    by (simp add: X_def)
  have "\<bar>real_of_int a\<bar> / real ori < 2 ^ 32 / 1"
    using ra ro1 by (intro frac_less) simp_all
  then have X_hi: "X < 2 ^ 32"
    by (simp add: X_def)
  obtain m1 e1 where d: "js_div a ori = Fin m1 e1"
    and err1: "\<bar>real_of_int m1 * 2 powi e1 - q\<bar> \<le> X / 2 ^ 53"
    and sg1: "0 < m1 \<longleftrightarrow> 0 < a" "m1 \<noteq> 0"
    using js_div_error [OF a pos a32 o32] unfolding X_def q_def by blast
  define v1 where "v1 = real_of_int m1 * 2 powi e1"
  have err1': "\<bar>v1 - q\<bar> \<le> X / 2 ^ 53"
    using err1 by (simp add: v1_def)
  have small: "X / 2 ^ 53 \<le> X / 2"
    using X_lo by (intro divide_left_mono) simp_all
  have "X / 2 \<le> \<bar>v1\<bar>"
    using err1' small absq by linarith
  moreover have "1 / 2 ^ 33 \<le> X / 2"
    using X_lo by simp
  ultimately have v1_lo: "1 / 2 ^ 33 \<le> \<bar>v1\<bar>"
    by (rule order_trans [rotated])
  have v1_up: "\<bar>v1\<bar> \<le> X + X / 2 ^ 53"
    using err1' absq by linarith
  have "\<bar>v1\<bar> \<le> 2 * X"
    using v1_up small X_lo by linarith
  moreover have "2 * X < 2 ^ 33"
    using X_hi by simp
  ultimately have v1_hi: "\<bar>v1\<bar> < 2 ^ 33"
    by (rule le_less_trans)
  obtain m2 e2 where mu: "js_mul (Fin m1 e1) 100 = Fin m2 e2"
    and err2: "\<bar>real_of_int m2 * 2 powi e2 - 100 * v1\<bar> \<le> 100 * \<bar>v1\<bar> / 2 ^ 53"
    and sg2: "0 < m2 \<longleftrightarrow> 0 < m1" "m2 \<noteq> 0"
    using js_mul_100_error [OF sg1(2), of e1] v1_lo v1_hi unfolding v1_def by blast
  define v2 where "v2 = real_of_int m2 * 2 powi e2"
  define u where "u = X / 2 ^ 53"
  have u0: "0 \<le> u"
    using X_lo by (simp add: u_def)
  have v1_2X: "\<bar>v1\<bar> \<le> 2 * X"
    using v1_up small X_lo by linarith
  have "100 * \<bar>v1\<bar> / 2 ^ 53 \<le> 100 * (2 * X) / 2 ^ 53"
    using v1_2X by (intro divide_right_mono) simp_all
  with err2 have err2': "\<bar>v2 - 100 * v1\<bar> \<le> 200 * u"
    by (simp add: v2_def u_def)
  have err1'': "\<bar>v1 - q\<bar> \<le> u"
    using err1' by (simp add: u_def)
  have total: "\<bar>v2 - 100 * q\<bar> \<le> 300 * u"
  proof -
    have "\<bar>(v2 - 100 * v1) + 100 * (v1 - q)\<bar> \<le> \<bar>v2 - 100 * v1\<bar> + \<bar>100 * (v1 - q)\<bar>"
      by (rule abs_triangle_ineq)
    moreover have "(v2 - 100 * v1) + 100 * (v1 - q) = v2 - 100 * q"
      by simp
    moreover have "\<bar>100 * (v1 - q)\<bar> = 100 * \<bar>v1 - q\<bar>"
      by (simp only: abs_mult abs_numeral)
    ultimately have "\<bar>v2 - 100 * q\<bar> \<le> \<bar>v2 - 100 * v1\<bar> + 100 * \<bar>v1 - q\<bar>"
      by (simp only:)
    with err2' err1'' show ?thesis
      by linarith
  qed
  have abs_total: "\<bar>\<bar>v2\<bar> - 100 * X\<bar> \<le> 300 * u"
  proof -
    have "\<bar>\<bar>v2\<bar> - \<bar>100 * q\<bar>\<bar> \<le> \<bar>v2 - 100 * q\<bar>"
      by (rule abs_triangle_ineq3)
    moreover have "\<bar>100 * q\<bar> = 100 * X"
      by (simp add: abs_mult absq)
    ultimately show ?thesis
      using total by simp
  qed
  have tiny: "300 * u < 1"
  proof -
    have "300 * X / 2 ^ 53 < 300 * 2 ^ 32 / 2 ^ 53"
      using X_hi by (intro divide_strict_right_mono) simp_all
    also have "\<dots> < (1::real)"
      by simp
    finally show ?thesis
      by (simp add: u_def)
  qed
  have "\<bar>v2\<bar> < 100 * X + 1"
    using abs_total tiny by linarith
  also have "\<dots> < 100 * 2 ^ 32 + 1"
    using X_hi by simp
  also have "\<dots> < (10::real) ^ 21"
    by simp
  finally have v2_hi: "\<bar>real_of_int m2 * 2 powi e2\<bar> < 10 ^ 21"
    by (simp add: v2_def)
  obtain n where fx: "toFixed1 (Fin m2 e2) = Some (one_decimal (m2 < 0) n)"
    and near: "\<bar>real n - 10 * \<bar>v2\<bar>\<bar> \<le> 1 / 2"
    using toFixed1_finite [OF v2_hi] unfolding v2_def by blast
  have neg: "m2 < 0 \<longleftrightarrow> ori < summ"
    using sg1 sg2 a by (auto simp: a_def)
  have cr: "compression_ratio ori summ = Some (one_decimal (ori < summ) n @ ''%'')"
    using d mu fx neg by (simp add: compression_ratio_def a_def)
  have "\<bar>real n - 1000 * X\<bar> \<le> 1 / 2 + 3000 * u"
    using near abs_total by linarith
  then have n_near: "\<bar>real n - 1000 * X\<bar> \<le> 1 / 2 + 3000 * X / 2 ^ 53"
    by (simp add: u_def)
  define K where "K = int n * int ori - 1000 * \<bar>a\<bar>"
  have K_real: "real_of_int K = (real n - 1000 * X) * real ori"
    using opos by (simp add: K_def X_def field_simps)
  have "\<bar>real_of_int K\<bar> = \<bar>real n - 1000 * X\<bar> * real ori"
    using opos by (simp add: K_real abs_mult)
  also have "\<dots> \<le> (1 / 2 + 3000 * X / 2 ^ 53) * real ori"
    using n_near opos by (intro mult_right_mono) simp_all
  also have "\<dots> = real ori / 2 + 3000 * \<bar>real_of_int a\<bar> / 2 ^ 53"
    using opos by (simp add: X_def field_simps)
  also have "\<dots> < real ori / 2 + 1 / 2"
  proof -
    have "3000 * \<bar>real_of_int a\<bar> / 2 ^ 53 < 3000 * 2 ^ 32 / 2 ^ 53"
      using ra by (intro divide_strict_right_mono) simp_all
    also have "\<dots> < (1::real) / 2"
      by simp
    finally show ?thesis by simp
  qed
  finally have "2 * \<bar>real_of_int K\<bar> < real ori + 1"
    by simp
  then have "real_of_int (2 * \<bar>K\<bar>) < real_of_int (int ori + 1)"
    by simp
  then have "2 * \<bar>K\<bar> < int ori + 1"
    by (simp only: of_int_less_iff)
  then have "2 * \<bar>K\<bar> \<le> int ori"
    by simp
  then have "real_of_int (2 * \<bar>K\<bar>) \<le> real_of_int (int ori)"
    by (simp only: of_int_le_iff)
  then have "\<bar>real_of_int K\<bar> \<le> real ori / 2"
    by simp
  then have "\<bar>real n - 1000 * X\<bar> * real ori \<le> 1 / 2 * real ori"
    using opos by (simp add: K_real abs_mult)
  then have best: "\<bar>real n - 1000 * X\<bar> \<le> 1 / 2"
    using opos by (simp only: mult_le_cancel_right_pos)
  have ex: "exact_ratio ori summ = 100 * q"
    using pos by (simp add: exact_ratio_def q_def a_def)
  define w where "w = real n - 1000 * X"
  have "tenths_value (ori < summ) n - exact_ratio ori summ = (if ori < summ then - w / 10 else w / 10)"
  proof (cases "ori < summ")
    case True
    then have "a < 0" by (simp add: a_def)
    then have "q = - X"
      using opos by (simp add: q_def X_def)
    with True show ?thesis
      by (simp add: tenths_value_def ex w_def)
  next
    case False
    then have "0 \<le> a" by (simp add: a_def)
    then have "q = X"
      using opos by (simp add: q_def X_def)
    with False show ?thesis
      by (simp add: tenths_value_def ex w_def)
  qed
  then have "\<bar>tenths_value (ori < summ) n - exact_ratio ori summ\<bar> = \<bar>w\<bar> / 10"
    by simp
  moreover have "\<bar>w\<bar> \<le> 1 / 2"
    using best by (simp add: w_def)
  ultimately have "\<bar>tenths_value (ori < summ) n - exact_ratio ori summ\<bar> \<le> 1 / 20"
    by simp
  with cr show ?thesis by blast
qed

lemma word_starts_le_length: "word_starts p s \<le> length s"
  by (induction s arbitrary: p) (simp_all add: le_SucI)

lemma summarize_success:
  assumes "fst (summarize node_env now gateway b) = (200, SummaryBody d ts)"
  shows "\<exists>tx content. body_text b = Some (JStr tx) \<and> validateSummarizeRequest b = []
           \<and> originalWordCount d = countWords tx
           \<and> summaryWordCount d = countWords (trim content)
           \<and> compressionRatio d = compression_ratio (countWords tx) (countWords (trim content))"
proof -
  have no200: "fst (handle_error node_env e) \<noteq> 200" for e
    by (simp add: handle_error_def)
  have v: "validateSummarizeRequest b = []"
  proof (rule ccontr)
    assume "validateSummarizeRequest b \<noteq> []"
    then have "fst (summarize node_env now gateway b)
                 = (400, ValidationBody ''Validation failed'' (validateSummarizeRequest b))"
      by (simp add: summarize_def)
    with assms show False by simp
  qed
  then obtain tx where t: "body_text b = Some (JStr tx)"
    using valid_text by blast
  define p where "p = prompt tx (with_default (body_tone b) ''professional'')
                        (with_default (body_length b) ''medium'')"
  show ?thesis
  proof (cases "gateway p")
    case (Failure e)
    with v t assms no200 [of e] show ?thesis
      by (simp add: summarize_def p_def)
  next
    case (Completion c)
    show ?thesis
    proof (cases c)
      case None
      with Completion v t assms no200 [of "type_error (Some JNull)"] show ?thesis
        by (simp add: summarize_def p_def)
    next
      case (Some content)
      with Completion v t assms have
        "d = \<lparr>originalText = tx, summary = trim content,
              originalWordCount = countWords tx,
              summaryWordCount = countWords (trim content),
              compressionRatio = compression_ratio (countWords tx) (countWords (trim content)),
              settings = \<lparr>tone = with_default (body_tone b) ''professional'',
                           length_setting = with_default (body_length b) ''medium''\<rparr>,
              model = ''llama-3.3-70b-versatile''\<rparr>"
        by (simp add: summarize_def p_def Let_def)
      with v t show ?thesis
        by auto
    qed
  qed
qed

text \<open>
  C4. In a successful response with a positive original word count, the compression
  ratio is the exact quotient (original - summary) / original * 100 shown with one
  decimal place and a trailing percent sign: the number shown is within one twentieth of
  the exact quotient, that is, it is a nearest tenth. The word counts are lengths of
  JavaScript arrays and so are below \<open>2 ^ 32\<close>; for the original count this follows
  from the validated length of the text. The counts 150 and 25 give "83.3%".
\<close>

theorem compression_ratio_one_decimal:
  "(fst (summarize node_env now gateway b) = (200, SummaryBody d ts)
      \<and> 0 < originalWordCount d \<and> summaryWordCount d < 2 ^ 32
    \<longrightarrow> (\<exists>n. compressionRatio d
                  = Some (one_decimal (originalWordCount d < summaryWordCount d) n @ ''%'')
             \<and> \<bar>tenths_value (originalWordCount d < summaryWordCount d) n
                  - exact_ratio (originalWordCount d) (summaryWordCount d)\<bar> \<le> 1 / 20))
   \<and> compression_ratio 150 25 = Some ''83.3%''"
proof (intro conjI impI)
  assume h: "fst (summarize node_env now gateway b) = (200, SummaryBody d ts)
      \<and> 0 < originalWordCount d \<and> summaryWordCount d < 2 ^ 32"
  then obtain tx content where t: "body_text b = Some (JStr tx)"
    and v: "validateSummarizeRequest b = []"
    and oc: "originalWordCount d = countWords tx"
    and sc: "summaryWordCount d = countWords (trim content)"
    and cr: "compressionRatio d = compression_ratio (countWords tx) (countWords (trim content))"
    using summarize_success by blast
  from v t have "length tx \<le> 10000"
    using valid_text by fastforce
  then have "countWords tx \<le> 10000"
    using word_starts_le_length [of True tx] by (simp add: countWords_word_starts)
  then have "originalWordCount d < 2 ^ 32"
    by (simp add: oc)
  from ratio_nearest_tenth [OF _ this, of "summaryWordCount d"] h
  show "\<exists>n. compressionRatio d
                  = Some (one_decimal (originalWordCount d < summaryWordCount d) n @ ''%'')
             \<and> \<bar>tenths_value (originalWordCount d < summaryWordCount d) n
                  - exact_ratio (originalWordCount d) (summaryWordCount d)\<bar> \<le> 1 / 20"
    by (simp add: cr oc sc)
next
  show "compression_ratio 150 25 = Some ''83.3%''"
    by code_simp
qed

lemma words_body_response:
  "fst (summarize None ''2025-07-27T16:21:00.000Z'' (fixed_gateway words_summary) words_body)
     = (200, SummaryBody words_data ''2025-07-27T16:21:00.000Z'')"
  by code_simp

theorem compression_ratio_one_decimal_witness:
  "fst (summarize None ''2025-07-27T16:21:00.000Z'' (fixed_gateway words_summary) words_body)
     = (200, SummaryBody words_data ''2025-07-27T16:21:00.000Z'')
   \<and> 0 < originalWordCount words_data \<and> summaryWordCount words_data < 2 ^ 32
   \<and> (\<exists>n. compressionRatio words_data
             = Some (one_decimal (originalWordCount words_data < summaryWordCount words_data) n
                     @ ''%'')
          \<and> \<bar>tenths_value (originalWordCount words_data < summaryWordCount words_data) n
               - exact_ratio (originalWordCount words_data) (summaryWordCount words_data)\<bar>
              \<le> 1 / 20)"
proof -
  have h: "fst (summarize None ''2025-07-27T16:21:00.000Z'' (fixed_gateway words_summary) words_body)
     = (200, SummaryBody words_data ''2025-07-27T16:21:00.000Z'')
   \<and> 0 < originalWordCount words_data \<and> summaryWordCount words_data < 2 ^ 32"
    using words_body_response by (simp add: words_data_def)
  from compression_ratio_one_decimal
         [of None "''2025-07-27T16:21:00.000Z''" "fixed_gateway words_summary" words_body
             words_data "''2025-07-27T16:21:00.000Z''"] h
  show ?thesis by blast
qed

lemma compression_ratio_zero_original:
  "compression_ratio 0 summ = Some (if summ = 0 then ''NaN%'' else ''-Infinity%'')"
  by (simp add: compression_ratio_def js_div_def)

text \<open>
  C1 is not met by the code: line 155 divides by the original word count without a
  guard. A text of 200 spaces passes the validation and has no words; the ratio is then
  "-Infinity%" for a summary with words and "NaN%" for an empty summary, not "0.0%".
\<close>

theorem blank_text_ratio_is_not_sentinel:
  "validateSummarizeRequest blank_body = []
   \<and> (\<exists>d. fst (summarize None ''2025-07-27T16:21:00.000Z''
                  (fixed_gateway ''Nothing to summarize.'') blank_body)
              = (200, SummaryBody d ''2025-07-27T16:21:00.000Z'')
            \<and> originalWordCount d = 0 \<and> compressionRatio d = Some ''-Infinity%'')
   \<and> (\<exists>d. fst (summarize None ''2025-07-27T16:21:00.000Z'' (fixed_gateway []) blank_body)
              = (200, SummaryBody d ''2025-07-27T16:21:00.000Z'')
            \<and> originalWordCount d = 0 \<and> compressionRatio d = Some ''NaN%'')"
proof -
  have v: "validateSummarizeRequest blank_body = []"
    by (simp add: blank_body_def validateSummarizeRequest_def isString_def isLength_min_def
          isLength_max_def)
  have c0: "countWords (replicate 200 CHR 0x20) = 0"
    by (simp add: countWords_word_starts word_starts_leading [of _ "[]", simplified] is_space_def)
  have c3: "countWords (trim ''Nothing to summarize.'') = 3"
    by (simp add: countWords_word_starts trim_def is_space_def)
  have ce: "countWords (trim []) = 0"
    by (simp add: countWords_word_starts trim_def)
  show ?thesis
    using v c0 c3 ce
    by (simp add: summarize_def blank_body_def fixed_gateway_def with_default_def Let_def
          compression_ratio_zero_original)
qed

section \<open>Rate limiter\<close>

lemma js_ceil_value: "js_ceil (Fin m e) = Fin \<lceil>real_of_int m * 2 powi e\<rceil> 0"
proof (cases "0 \<le> e")
  case True
  then have "real_of_int m * 2 powi e = real_of_int (m * 2 ^ nat e)"
    by (simp add: power_int_def)
  then have "\<lceil>real_of_int m * 2 powi e\<rceil> = m * 2 ^ nat e"
    by (simp only: ceiling_of_int)
  with True show ?thesis by simp
next
  case False
  then have "real_of_int m * 2 powi e = real_of_int m / real_of_int (2 ^ nat (- e))"
    by (simp add: power_int_def power_one_over field_simps)
  then have "\<lceil>real_of_int m * 2 powi e\<rceil> = - \<lfloor>real_of_int (- m) / real_of_int (2 ^ nat (- e))\<rfloor>"
    by (simp add: ceiling_def)
  also have "\<dots> = - ((- m) div 2 ^ nat (- e))"
    by (simp only: floor_divide_of_int_eq)
  finally show ?thesis
    using False by simp
qed

lemma ceil_seconds:
  fixes w :: int
  assumes w0: "0 < w" and w31: "w < 2 ^ 31"
  shows "js_ceil (js_div w 1000) = Fin \<lceil>real_of_int w / 1000\<rceil> 0"
proof -
  define x where "x = real_of_int w / 1000"
  define c where "c = \<lceil>x\<rceil>"
  have wn: "w \<noteq> 0"
    using w0 by simp
  have xpos: "0 < x"
    using w0 by (simp add: x_def)
  have "real_of_int 1 \<le> real_of_int w"
    using w0 by (simp only: of_int_le_iff)
  then have lo: "2 powi (- 10) \<le> \<bar>real_of_int w\<bar> / real_of_int 1000"
    using w0 by (simp add: power_int_minus_divide)
  have "real_of_int w < real_of_int (2 ^ 31)"
    using w31 by (simp only: of_int_less_iff)
  then have x31: "x < 2 ^ 31"
    by (simp add: x_def)
  then have hi: "\<bar>real_of_int w\<bar> / real_of_int 1000 < 2 powi 31"
    using w0 by (simp add: x_def)
  from round_ratio_normal_strong [OF wn _ lo _ hi]
  obtain m e where r: "round_ratio w 1000 = Fin m e"
    and err: "\<bar>real_of_int m * 2 powi e - x\<bar> \<le> x / 2 ^ 53"
    and my: "\<bar>real_of_int m - x / 2 powi e\<bar> \<le> 1 / 2"
    and ex: "2 powi (e + 52) \<le> x"
    using w0 unfolding x_def by auto
  define v where "v = real_of_int m * 2 powi e"
  have d: "js_div w 1000 = Fin m e"
    using r by (simp add: js_div_def)
  have "\<lceil>v\<rceil> = c"
  proof (cases "1000 dvd w")
    case True
    then obtain k where k: "w = 1000 * k"
      by (auto simp: dvd_def)
    then have xk: "x = real_of_int k"
      by (simp add: x_def)
    have "(2::real) powi (e + 52) < 2 powi 31"
      using ex x31 by simp
    then have "e + 52 < 31"
    proof -
      have "\<not> 31 \<le> e + 52"
      proof
        assume "31 \<le> e + 52"
        then have "(2::real) powi 31 \<le> 2 powi (e + 52)"
          by (intro power_int_increasing) simp_all
        with \<open>(2::real) powi (e + 52) < 2 powi 31\<close> show False by simp
      qed
      then show ?thesis by simp
    qed
    then have eneg: "e < 0"
      by simp
    then have pw: "(2::real) powi e = 1 / 2 ^ nat (- e)"
      by (simp add: power_int_def power_one_over)
    then have "x / 2 powi e = real_of_int (k * 2 ^ nat (- e))"
      by (simp add: xk)
    with my have "\<bar>real_of_int m - real_of_int (k * 2 ^ nat (- e))\<bar> \<le> 1 / 2"
      by simp
    then have "\<bar>real_of_int (m - k * 2 ^ nat (- e))\<bar> < real_of_int 1"
      by simp
    then have "\<bar>m - k * 2 ^ nat (- e)\<bar> < 1"
      by (simp only: of_int_abs [symmetric] of_int_less_iff)
    then have "m = k * 2 ^ nat (- e)"
      by simp
    then have "v = real_of_int k"
      by (simp add: v_def pw)
    then show ?thesis
      by (simp add: c_def xk)
  next
    case False
    have c1: "real_of_int c - 1 < x" and c2: "x \<le> real_of_int c"
      unfolding c_def by linarith+
    have "x * 1000 = real_of_int w"
      by (simp add: x_def)
    with c1 c2 have "real_of_int ((c - 1) * 1000) < real_of_int w"
      and "real_of_int w \<le> real_of_int (c * 1000)"
      by simp_all
    then have i1: "(c - 1) * 1000 < w" and i2: "w \<le> c * 1000"
      by (simp_all only: of_int_less_iff of_int_le_iff)
    from False have "w \<noteq> c * 1000"
      by auto
    with i1 i2 have "(c - 1) * 1000 + 1 \<le> w" and "w \<le> c * 1000 - 1"
      by simp_all
    then have "real_of_int ((c - 1) * 1000 + 1) \<le> real_of_int w"
      and "real_of_int w \<le> real_of_int (c * 1000 - 1)"
      by (simp_all only: of_int_le_iff)
    then have x1: "real_of_int c - 1 + 1 / 1000 \<le> x" and x2: "x \<le> real_of_int c - 1 / 1000"
      by (simp_all add: x_def)
    have "x / 2 ^ 53 < 2 ^ 31 / 2 ^ 53"
      using x31 by (intro divide_strict_right_mono) simp_all
    also have "\<dots> < (1::real) / 1000"
      by simp
    finally have "\<bar>v - x\<bar> < 1 / 1000"
      using err by (simp add: v_def)
    with x1 x2 have "real_of_int c - 1 < v" and "v \<le> real_of_int c"
      by linarith+
    then show ?thesis
      by (rule ceiling_unique)
  qed
  then have "\<lceil>real_of_int m * 2 powi e\<rceil> = \<lceil>real_of_int w / 1000\<rceil>"
    by (simp add: v_def c_def x_def)
  then show ?thesis
    by (simp only: d js_ceil_value)
qed

lemma retryAfter_default:
  "RATE_LIMIT_WINDOW_MS env = None \<Longrightarrow> retryAfter env = Fin 900 0"
  by (simp add: retryAfter_def or_default_def) code_simp

text \<open>
  C3, as the specification states it, fails. With two requests allowed in the default
  window of 15 minutes, a third request 600 seconds after the first is rejected with
  \<open>retryAfter\<close> 900 although 300 seconds of the window remain. With a window of 1500
  milliseconds \<open>retryAfter\<close> is 2, more than the window length of 1.5 seconds.
\<close>

theorem retryAfter_is_not_remaining:
  "snd (limiter_run two_per_window Map.empty ''203.0.113.7'' [0, 1000, 600000])
     = Some (429, LimitBody ''Too many requests from this IP, please try again later.'' (Fin 900 0))
   \<and> remaining_seconds
         (fst (limiter_run two_per_window Map.empty ''203.0.113.7'' [0, 1000, 600000]))
         ''203.0.113.7'' 600000 = 300
   \<and> jsnum_value (Fin 900 0) = Some 900
   \<and> retryAfter short_window = Fin 2 0
   \<and> jsnum_value (Fin 2 0) = Some 2
   \<and> real_of_int (windowMs short_window) / 1000 = 3 / 2"
proof -
  have r: "retryAfter two_per_window = Fin 900 0"
    by (rule retryAfter_default) (simp add: two_per_window_def)
  have w: "windowMs two_per_window = 900000" and m: "max_requests two_per_window = 2"
    by (simp_all add: windowMs_def max_requests_def or_default_def two_per_window_def)
  have run: "limiter_run two_per_window Map.empty ''203.0.113.7'' [0, 1000, 600000]
               = ([''203.0.113.7'' \<mapsto> (3, 900000)],
                  Some (429, LimitBody ''Too many requests from this IP, please try again later.''
                               (Fin 900 0)))"
    by (simp add: limiter_def limiter_message_def r w m)
  have s: "retryAfter short_window = Fin 2 0"
    by (simp add: retryAfter_def or_default_def short_window_def) code_simp
  have ws: "windowMs short_window = 1500"
    by (simp add: windowMs_def or_default_def short_window_def)
  show ?thesis
    unfolding run by (simp add: s ws remaining_seconds_def)
qed

text \<open>
  C3, amended. A request that the limiter rejects is answered with status 429 and the
  configured message, whose \<open>retryAfter\<close> is the constant \<open>Math.ceil(windowMs / 1000)\<close>
  computed from the configuration alone: it depends neither on the state of the limiter
  nor on the time of the request. For a window of less than \<open>2 ^ 31\<close> milliseconds it
  is the window length in seconds rounded up to a whole number; for the default window
  it is 900. What remains of the client's window after a request is at most the window
  length, when no window of the state ends more than one window length ahead.
\<close>

theorem limiter_denial_static:
  "(snd (limiter env st ip now) = Some r \<longrightarrow>
      r = (429, LimitBody ''Too many requests from this IP, please try again later.''
                  (retryAfter env)))
   \<and> (0 < windowMs env \<and> windowMs env < 2 ^ 31 \<longrightarrow>
        retryAfter env = Fin \<lceil>real_of_int (windowMs env) / 1000\<rceil> 0)
   \<and> (RATE_LIMIT_WINDOW_MS env = None \<longrightarrow>
        retryAfter env = Fin 900 0 \<and> real_of_int (windowMs env) / 1000 = 900)
   \<and> ((\<forall>h t. st ip = Some (h, t) \<longrightarrow> t \<le> now + windowMs env) \<longrightarrow>
        remaining_seconds (fst (limiter env st ip now)) ip now
          \<le> real_of_int (windowMs env) / 1000)"
proof (intro conjI impI)
  assume "0 < windowMs env \<and> windowMs env < 2 ^ 31"
  then have "js_ceil (js_div (windowMs env) 1000)
               = Fin \<lceil>real_of_int (windowMs env) / 1000\<rceil> 0"
    by (intro ceil_seconds) simp_all
  then show "retryAfter env = Fin \<lceil>real_of_int (windowMs env) / 1000\<rceil> 0"
    by (simp add: retryAfter_def windowMs_def)
next
  assume "snd (limiter env st ip now) = Some r"
  then show "r = (429, LimitBody ''Too many requests from this IP, please try again later.''
                  (retryAfter env))"
    by (auto simp: limiter_def limiter_message_def Let_def split: prod.splits if_splits)
next
  assume d: "RATE_LIMIT_WINDOW_MS env = None"
  then show "retryAfter env = Fin 900 0"
    by (rule retryAfter_default)
  from d show "real_of_int (windowMs env) / 1000 = 900"
    by (simp add: windowMs_def or_default_def)
next
  assume inv: "\<forall>h t. st ip = Some (h, t) \<longrightarrow> t \<le> now + windowMs env"
  show "remaining_seconds (fst (limiter env st ip now)) ip now
          \<le> real_of_int (windowMs env) / 1000"
  proof (cases "st ip")
    case None
    then show ?thesis
      by (simp add: limiter_def remaining_seconds_def)
  next
    case (Some hr)
    obtain h t where hr: "hr = (h, t)"
      by (cases hr)
    with Some inv have "t \<le> now + windowMs env"
      by simp
    then have "real_of_int (t - now) \<le> real_of_int (windowMs env)"
      by (simp only: of_int_le_iff)
    with Some hr show ?thesis
      by (simp add: limiter_def remaining_seconds_def)
  qed
qed

theorem limiter_denial_static_witness:
  "snd (limiter two_per_window [''203.0.113.7'' \<mapsto> (2, 900000)] ''203.0.113.7'' 600000)
     = Some (429, LimitBody ''Too many requests from this IP, please try again later.''
                    (Fin 900 0))
   \<and> remaining_seconds
         (fst (limiter two_per_window [''203.0.113.7'' \<mapsto> (2, 900000)] ''203.0.113.7'' 600000))
         ''203.0.113.7'' 600000 \<le> 900
   \<and> 0 < windowMs two_per_window \<and> windowMs two_per_window < 2 ^ 31
   \<and> retryAfter two_per_window = Fin \<lceil>real_of_int (windowMs two_per_window) / 1000\<rceil> 0"
proof -
  let ?st = "[''203.0.113.7'' \<mapsto> (2 :: int, 900000 :: int)]"
  have d: "RATE_LIMIT_WINDOW_MS two_per_window = None"
    by (simp add: two_per_window_def)
  have w: "windowMs two_per_window = 900000" and m: "max_requests two_per_window = 2"
    by (simp_all add: windowMs_def max_requests_def or_default_def two_per_window_def)
  have rej: "snd (limiter two_per_window ?st ''203.0.113.7'' 600000)
               = Some (429, limiter_message two_per_window)"
    by (simp add: limiter_def w m)
  have inv: "\<forall>h t. ?st ''203.0.113.7'' = Some (h, t) \<longrightarrow> t \<le> 600000 + windowMs two_per_window"
    by (simp add: w)
  from limiter_denial_static
         [of two_per_window ?st "''203.0.113.7''" 600000 "(429, limiter_message two_per_window)"]
       rej d inv
  show ?thesis
    by (simp add: w limiter_message_def)
qed

end
